theory Spec2Isabelle
  imports Complex_Main "HOL-Library.Multiset" "HOL-Library.Word"
begin

section \<open>Numbers and strings\<close>

text \<open>
  The program is TypeScript. Its \<open>number\<close> values are modelled as \<^typ>\<open>real\<close> in the
  allocator, the scorer, the cost function and the annealing loop: their arithmetic is
  exact here, and what is proved about them is proved up to the binary64 rounding of the
  program. The seeded generator is modelled with the rounding written out (section
  SeededRandom).
  Strings are \<^typ>\<open>string\<close>; a character is read as a Latin-1 code point.
\<close>

section \<open>Data model (types.ts)\<close>

record KeyDef =
  k_code :: string
  k_x :: real
  k_y :: real
  k_width :: real
  k_height :: "real option"

text \<open>A table row \<open>{ code, x, y, width }\<close>: the optional height is absent.\<close>

definition mkKey :: "string \<Rightarrow> real \<Rightarrow> real \<Rightarrow> real \<Rightarrow> KeyDef" where
  "mkKey c a b w = \<lparr>k_code = c, k_x = a, k_y = b, k_width = w, k_height = None\<rparr>"

definition ANSI_LAYOUT :: "KeyDef list" where
  "ANSI_LAYOUT =
    [mkKey ''Backquote'' 0 0 4,
     mkKey ''Digit1'' 4 0 4,
     mkKey ''Digit2'' 8 0 4,
     mkKey ''Digit3'' 12 0 4,
     mkKey ''Digit4'' 16 0 4,
     mkKey ''Digit5'' 20 0 4,
     mkKey ''Digit6'' 24 0 4,
     mkKey ''Digit7'' 28 0 4,
     mkKey ''Digit8'' 32 0 4,
     mkKey ''Digit9'' 36 0 4,
     mkKey ''Digit0'' 40 0 4,
     mkKey ''Minus'' 44 0 4,
     mkKey ''Equal'' 48 0 4,
     mkKey ''Backspace'' 52 0 8,
     mkKey ''Tab'' 0 4 6,
     mkKey ''KeyQ'' 6 4 4,
     mkKey ''KeyW'' 10 4 4,
     mkKey ''KeyE'' 14 4 4,
     mkKey ''KeyR'' 18 4 4,
     mkKey ''KeyT'' 22 4 4,
     mkKey ''KeyY'' 26 4 4,
     mkKey ''KeyU'' 30 4 4,
     mkKey ''KeyI'' 34 4 4,
     mkKey ''KeyO'' 38 4 4,
     mkKey ''KeyP'' 42 4 4,
     mkKey ''BracketLeft'' 46 4 4,
     mkKey ''BracketRight'' 50 4 4,
     mkKey ''Backslash'' 54 4 6,
     mkKey ''CapsLock'' 0 8 7,
     mkKey ''KeyA'' 7 8 4,
     mkKey ''KeyS'' 11 8 4,
     mkKey ''KeyD'' 15 8 4,
     mkKey ''KeyF'' 19 8 4,
     mkKey ''KeyG'' 23 8 4,
     mkKey ''KeyH'' 27 8 4,
     mkKey ''KeyJ'' 31 8 4,
     mkKey ''KeyK'' 35 8 4,
     mkKey ''KeyL'' 39 8 4,
     mkKey ''Semicolon'' 43 8 4,
     mkKey ''Quote'' 47 8 4,
     mkKey ''Enter'' 51 8 9,
     mkKey ''ShiftLeft'' 0 12 9,
     mkKey ''KeyZ'' 9 12 4,
     mkKey ''KeyX'' 13 12 4,
     mkKey ''KeyC'' 17 12 4,
     mkKey ''KeyV'' 21 12 4,
     mkKey ''KeyB'' 25 12 4,
     mkKey ''KeyN'' 29 12 4,
     mkKey ''KeyM'' 33 12 4,
     mkKey ''Comma'' 37 12 4,
     mkKey ''Period'' 41 12 4,
     mkKey ''Slash'' 45 12 4,
     mkKey ''ShiftRight'' 49 12 11,
     mkKey ''ControlLeft'' 0 16 5,
     mkKey ''MetaLeft'' 5 16 5,
     mkKey ''AltLeft'' 10 16 5,
     mkKey ''Space'' 15 16 4,
     mkKey ''SpaceRightSide'' 19 16 21,
     mkKey ''AltRight'' 40 16 5,
     mkKey ''MetaRight'' 45 16 5,
     mkKey ''ContextMenu'' 50 16 5,
     mkKey ''ControlRight'' 55 16 5]"

definition MOUSE_LAYOUT :: "KeyDef list" where
  "MOUSE_LAYOUT =
    [mkKey ''MouseLeft'' 70 4 4,
     mkKey ''MouseUp'' 74 0 4,
     mkKey ''MouseRight'' 78 4 4,
     mkKey ''Mouse4'' 66 8 4,
     mkKey ''MouseMiddle'' 74 4 4,
     mkKey ''Mouse5'' 66 12 4,
     mkKey ''MouseDown'' 74 8 4]"

datatype Finger =
  LeftPinky | LeftRing | LeftMiddle | LeftIndex | LeftThumb
  | RightThumb | RightIndex | RightMiddle | RightRing | RightPinky

record FingerConfig =
  restingKey :: string
  reach :: real
  exclusiveKeys :: "string list option"
  keyPenalties :: "string \<rightharpoonup> real"

text \<open>
  \<open>FingerConfigMap\<close> is an object keyed by finger; the code walks it with
  \<open>Object.entries\<close>, so the model keeps the entries in their order. An entry whose value
  is \<open>undefined\<close> is skipped by every loop of the source and is left out of the list.
\<close>

type_synonym FingerConfigMap = "(Finger \<times> FingerConfig) list"

record ScoredKey =
  sk_code :: string
  totalScore :: real
  bestFinger :: Finger
  originKey :: string
  isRestingKey :: bool
  isMovement :: bool

section \<open>Geometry (geometry.ts)\<close>

definition DEFAULT_KEY_HEIGHT :: real where
  "DEFAULT_KEY_HEIGHT = 4"

record Point =
  p_x :: real
  p_y :: real

definition getKeyCenter :: "KeyDef \<Rightarrow> Point" where
  "getKeyCenter key =
     \<lparr>p_x = k_x key + k_width key / 2,
      p_y = k_y key + (case k_height key of None \<Rightarrow> DEFAULT_KEY_HEIGHT | Some h \<Rightarrow> h) / 2\<rparr>"

definition euclidean :: "Point \<Rightarrow> Point \<Rightarrow> real" where
  "euclidean pointA pointB =
     (let deltaX = p_x pointA - p_x pointB;
          deltaY = p_y pointA - p_y pointB
      in sqrt (deltaX * deltaX + deltaY * deltaY))"

definition keyDistance :: "KeyDef \<Rightarrow> KeyDef \<Rightarrow> real" where
  "keyDistance keyA keyB =
     (if k_code keyA = k_code keyB then 0
      else euclidean (getKeyCenter keyA) (getKeyCenter keyB))"

text \<open>\<open>Array.prototype.sort\<close> is stable; so is the insertion sort \<^const>\<open>sort_key\<close>.\<close>

definition sortKeysByX :: "KeyDef list \<Rightarrow> KeyDef list" where
  "sortKeysByX keys = sort_key (\<lambda>k. p_x (getKeyCenter k)) keys"

text \<open>\<open>new Map(entries)\<close>: a later entry with the same code replaces an earlier one.\<close>

definition buildKeyMap :: "KeyDef list \<Rightarrow> (string \<rightharpoonup> KeyDef)" where
  "buildKeyMap keys = foldl (\<lambda>m key. m(k_code key \<mapsto> key)) Map.empty keys"

section \<open>The optimizer object and the key scorer (Optimizer.ts)\<close>

record Optimizer =
  keyMap :: "string \<rightharpoonup> KeyDef"
  sortedKeysX :: "KeyDef list"

text \<open>
  The constructor builds both fields from one key list. The source passes the two fixed
  tables; the theorems below hold for every list.
\<close>

definition mkOptimizer :: "KeyDef list \<Rightarrow> Optimizer" where
  "mkOptimizer allKeys = \<lparr>keyMap = buildKeyMap allKeys, sortedKeysX = sortKeysByX allKeys\<rparr>"

definition newOptimizer :: Optimizer where
  "newOptimizer = mkOptimizer (ANSI_LAYOUT @ MOUSE_LAYOUT)"

text \<open>The sentinel \<open>-1\<close> stands for "not found".\<close>

definition getDistance :: "Optimizer \<Rightarrow> string \<Rightarrow> string \<Rightarrow> real" where
  "getDistance opt key1Id key2Id =
     (case keyMap opt key1Id of
        None \<Rightarrow> - 1
      | Some key1 \<Rightarrow>
          (case keyMap opt key2Id of
             None \<Rightarrow> - 1
           | Some key2 \<Rightarrow> keyDistance key1 key2))"

text \<open>
  The loop of \<open>findKeysWithinRadius\<close> over the x-sorted list: \<open>continue\<close> is the
  recursive call on the rest, \<open>break\<close> ends the result.
\<close>

fun sweepKeys :: "Point \<Rightarrow> real \<Rightarrow> string option \<Rightarrow> KeyDef list \<Rightarrow> (string \<times> real) list" where
  "sweepKeys center maxDistance excludeCode [] = []"
| "sweepKeys center maxDistance excludeCode (keyDefinition # rest) =
     (let keyCenter = getKeyCenter keyDefinition in
      if p_x keyCenter < p_x center - maxDistance then sweepKeys center maxDistance excludeCode rest
      else if p_x keyCenter > p_x center + maxDistance then []
      else if \<bar>p_y keyCenter - p_y center\<bar> > maxDistance then sweepKeys center maxDistance excludeCode rest
      else if Some (k_code keyDefinition) = excludeCode then sweepKeys center maxDistance excludeCode rest
      else let distance = euclidean center keyCenter in
        if distance > maxDistance then sweepKeys center maxDistance excludeCode rest
        else (k_code keyDefinition, distance) # sweepKeys center maxDistance excludeCode rest)"

definition findKeysWithinRadius ::
  "Optimizer \<Rightarrow> Point \<Rightarrow> real \<Rightarrow> string option \<Rightarrow> (string \<times> real) list" where
  "findKeysWithinRadius opt center maxDistance excludeCode =
     sweepKeys center maxDistance excludeCode (sortedKeysX opt)"

definition getNearbyKeys :: "Optimizer \<Rightarrow> string \<Rightarrow> real \<Rightarrow> (string \<times> real) list" where
  "getNearbyKeys opt targetKeyId maxDistance =
     (case keyMap opt targetKeyId of
        None \<Rightarrow> []
      | Some targetKey \<Rightarrow>
          findKeysWithinRadius opt (getKeyCenter targetKey) maxDistance (Some targetKeyId))"

text \<open>
  The naive scan the sweep is compared with, written from the specification's words: look
  at every key, keep those within the radius (the excluded code apart).
\<close>

definition naiveKeysWithinRadius ::
  "KeyDef list \<Rightarrow> Point \<Rightarrow> real \<Rightarrow> string option \<Rightarrow> (string \<times> real) list" where
  "naiveKeysWithinRadius keys center maxDistance excludeCode =
     map (\<lambda>k. (k_code k, euclidean center (getKeyCenter k)))
       (filter (\<lambda>k. Some (k_code k) \<noteq> excludeCode
                  \<and> euclidean center (getKeyCenter k) \<le> maxDistance) keys)"

record Closest =
  cl_finger :: Finger
  cl_originKey :: string
  cl_distance :: real

definition penaltyOf :: "FingerConfig \<Rightarrow> string \<Rightarrow> real" where
  "penaltyOf config keyCode = (case keyPenalties config keyCode of None \<Rightarrow> 0 | Some p \<Rightarrow> p)"

definition includesKey :: "string list option \<Rightarrow> string \<Rightarrow> bool" where
  "includesKey keys keyCode = (case keys of None \<Rightarrow> False | Some ks \<Rightarrow> keyCode \<in> set ks)"

text \<open>First loop of \<open>findClosestRestingFinger\<close>: is the key exclusive to a finger?\<close>

fun exclusiveSearch :: "Optimizer \<Rightarrow> string \<Rightarrow> FingerConfigMap \<Rightarrow> Closest option" where
  "exclusiveSearch opt keyCode [] = None"
| "exclusiveSearch opt keyCode ((finger, config) # rest) =
     (if \<not> includesKey (exclusiveKeys config) keyCode then exclusiveSearch opt keyCode rest
      else let penalty = penaltyOf config keyCode in
        if keyCode = restingKey config
        then Some \<lparr>cl_finger = finger, cl_originKey = restingKey config, cl_distance = penalty\<rparr>
        else let dist = getDistance opt keyCode (restingKey config) in
          if dist = - 1 then exclusiveSearch opt keyCode rest
          else Some \<lparr>cl_finger = finger, cl_originKey = restingKey config,
                     cl_distance = dist + penalty\<rparr>)"

definition hasExclusiveKeys :: "FingerConfig \<Rightarrow> bool" where
  "hasExclusiveKeys config =
     (case exclusiveKeys config of None \<Rightarrow> False | Some ks \<Rightarrow> length ks > 0)"

text \<open>Second loop: the normal search, \<open>best\<close> being the running minimum.\<close>

fun normalSearch ::
  "Optimizer \<Rightarrow> string \<Rightarrow> FingerConfigMap \<Rightarrow> Closest option \<Rightarrow> Closest option" where
  "normalSearch opt keyCode [] best = best"
| "normalSearch opt keyCode ((finger, config) # rest) best =
     (if hasExclusiveKeys config then normalSearch opt keyCode rest best
      else let penalty = penaltyOf config keyCode in
        if keyCode = restingKey config
        then Some \<lparr>cl_finger = finger, cl_originKey = restingKey config, cl_distance = penalty\<rparr>
        else let dist = getDistance opt keyCode (restingKey config) in
          if dist = - 1 then normalSearch opt keyCode rest best
          else let totalDist = dist + penalty in
            if (case best of None \<Rightarrow> True | Some b \<Rightarrow> totalDist < cl_distance b)
            then normalSearch opt keyCode rest
                   (Some \<lparr>cl_finger = finger, cl_originKey = restingKey config,
                          cl_distance = totalDist\<rparr>)
            else normalSearch opt keyCode rest best)"

definition findClosestRestingFinger ::
  "Optimizer \<Rightarrow> string \<Rightarrow> FingerConfigMap \<Rightarrow> Closest option" where
  "findClosestRestingFinger opt keyCode fingerConfig =
     (case exclusiveSearch opt keyCode fingerConfig of
        Some found \<Rightarrow> Some found
      | None \<Rightarrow> normalSearch opt keyCode fingerConfig None)"

definition scoreKey ::
  "Optimizer \<Rightarrow> string \<Rightarrow> FingerConfigMap \<Rightarrow> string set \<Rightarrow> ScoredKey option" where
  "scoreKey opt keyCode fingerConfig movementKeys =
     (case findClosestRestingFinger opt keyCode fingerConfig of
        None \<Rightarrow> None
      | Some result \<Rightarrow>
          Some \<lparr>sk_code = keyCode, totalScore = cl_distance result,
                bestFinger = cl_finger result, originKey = cl_originKey result,
                isRestingKey = (cl_distance result = 0),
                isMovement = (keyCode \<in> movementKeys)\<rparr>)"

definition scoreKeys ::
  "Optimizer \<Rightarrow> FingerConfigMap \<Rightarrow> string set \<Rightarrow> string list \<Rightarrow> ScoredKey list" where
  "scoreKeys opt fingerConfig movementKeys allKeyCodes =
     List.map_filter (\<lambda>code. scoreKey opt code fingerConfig movementKeys) allKeyCodes"


section \<open>Actions, bindings and movement configuration (types.ts)\<close>

datatype ActionType = DIRECTIONAL | MOVEMENT | COMBAT | UTILITY | MENU

record Action =
  name :: string
  priority :: real
  atype :: ActionType
  useFrequency :: real
  concurrentWith :: "string list option"

record Binding =
  b_action :: string
  b_key :: string

record AxisConfig =
  positiveKey :: string
  negativeKey :: string
  fingers :: "Finger list"
  isExclusive :: bool

record MovementConfig =
  verticalAxis :: AxisConfig
  horizontalAxis :: AxisConfig

type_synonym LockedBinds = "string \<rightharpoonup> string"
type_synonym FingerLoad = "Finger \<rightharpoonup> real"

section \<open>String helpers\<close>

text \<open>
  \<open>toLowerCase\<close> on Latin-1 text: the letters A to Z and the accented capitals move
  up by 32 (bit 5 of the code is set), every other character stays.
\<close>

fun toLowerChar :: "char \<Rightarrow> char" where
  "toLowerChar (Char b0 b1 b2 b3 b4 b5 b6 b7) =
     (let n = (of_char (Char b0 b1 b2 b3 b4 b5 b6 b7) :: nat) in
      if (65 \<le> n \<and> n \<le> 90) \<or> (192 \<le> n \<and> n \<le> 222 \<and> n \<noteq> 215)
      then Char b0 b1 b2 b3 b4 True b6 b7
      else Char b0 b1 b2 b3 b4 b5 b6 b7)"

definition toLowerCase :: "string \<Rightarrow> string" where
  "toLowerCase s = map toLowerChar s"

fun startsWith :: "string \<Rightarrow> string \<Rightarrow> bool" where
  "startsWith s [] = True"
| "startsWith [] (p # ps) = False"
| "startsWith (c # cs) (p # ps) = (c = p \<and> startsWith cs ps)"

text \<open>\<open>s.includes(sub)\<close>: \<open>sub\<close> occurs in \<open>s\<close> as a contiguous run.\<close>

fun str_includes :: "string \<Rightarrow> string \<Rightarrow> bool" where
  "str_includes [] sub = (sub = [])"
| "str_includes (c # cs) sub = (startsWith (c # cs) sub \<or> str_includes cs sub)"

section \<open>The greedy allocator (Optimizer.ts)\<close>

definition sortActionsByFrequency :: "Action list \<Rightarrow> Action list" where
  "sortActionsByFrequency actions = sort_key (\<lambda>a. - useFrequency a) actions"

definition buildMovementKeySet :: "MovementConfig \<Rightarrow> string set" where
  "buildMovementKeySet config =
     {positiveKey (verticalAxis config), negativeKey (verticalAxis config),
      positiveKey (horizontalAxis config), negativeKey (horizontalAxis config)}"

definition buildExclusiveMovementFingers :: "MovementConfig \<Rightarrow> Finger set" where
  "buildExclusiveMovementFingers config =
     (if isExclusive (verticalAxis config) then set (fingers (verticalAxis config)) else {})
     \<union> (if isExclusive (horizontalAxis config) then set (fingers (horizontalAxis config)) else {})"

definition addFingerLoad :: "FingerLoad \<Rightarrow> Finger \<Rightarrow> real \<Rightarrow> FingerLoad" where
  "addFingerLoad fingerLoad finger frequency =
     (let current = (case fingerLoad finger of None \<Rightarrow> 0 | Some l \<Rightarrow> l)
      in fingerLoad(finger \<mapsto> current + frequency))"

definition findAxisForAction :: "Action \<Rightarrow> MovementConfig \<Rightarrow> AxisConfig option" where
  "findAxisForAction action config =
     (if str_includes (toLowerCase (name action)) ''forward''
         \<or> str_includes (toLowerCase (name action)) ''backward''
      then Some (verticalAxis config)
      else if str_includes (toLowerCase (name action)) ''left''
         \<or> str_includes (toLowerCase (name action)) ''right''
      then Some (horizontalAxis config)
      else None)"

definition fingersOf :: "(string \<rightharpoonup> Finger list) \<Rightarrow> string \<Rightarrow> Finger list" where
  "fingersOf actionFingerMap n = (case actionFingerMap n of None \<Rightarrow> [] | Some fs \<Rightarrow> fs)"

definition getBlockedFingersForConcurrency ::
  "Action \<Rightarrow> (string \<rightharpoonup> Finger list) \<Rightarrow> Action list \<Rightarrow> Finger set" where
  "getBlockedFingersForConcurrency action actionFingerMap allActions =
     set (concat (map (fingersOf actionFingerMap)
            (case concurrentWith action of None \<Rightarrow> [] | Some others \<Rightarrow> others)))
     \<union> set (concat (map (\<lambda>otherAction. fingersOf actionFingerMap (name otherAction))
            (filter (\<lambda>otherAction. includesKey (concurrentWith otherAction) (name action))
               allActions)))"

record AllocResult =
  r_binding :: Binding
  r_fingers :: "Finger list"

text \<open>
  The allocation functions update \<open>fingerLoad\<close> in place; the model returns the new load
  beside the result. With an empty finger list the source stores the load under
  \<open>undefined\<close>, an entry no later lookup reads: the model leaves the load as it is.
\<close>

definition allocateMovementAction ::
  "Action \<Rightarrow> ScoredKey list \<Rightarrow> string set \<Rightarrow> MovementConfig \<Rightarrow> FingerLoad
   \<Rightarrow> AllocResult option \<times> FingerLoad" where
  "allocateMovementAction action scoredKeys boundKeys movementConfig fingerLoad =
     (case findAxisForAction action movementConfig of
        None \<Rightarrow> (None, fingerLoad)
      | Some axisConfig \<Rightarrow>
          (case find (\<lambda>k. sk_code k \<in> set [positiveKey axisConfig, negativeKey axisConfig]
                          \<and> sk_code k \<notin> boundKeys) scoredKeys of
             None \<Rightarrow> (None, fingerLoad)
           | Some bestKey \<Rightarrow>
               (Some \<lparr>r_binding = \<lparr>b_action = name action, b_key = sk_code bestKey\<rparr>,
                      r_fingers = fingers axisConfig\<rparr>,
                (case fingers axisConfig of
                   [] \<Rightarrow> fingerLoad
                 | primaryFinger # _ \<Rightarrow>
                     addFingerLoad fingerLoad primaryFinger (useFrequency action)))))"

text \<open>
  The scan of \<open>allocateNonMovementAction\<close>; \<open>minimumScore\<close> starts at \<open>Infinity\<close>,
  written \<open>None\<close>, and the cap \<open>maxDistance\<close> is \<open>Infinity\<close> for priority 0.
\<close>

fun scanKeys ::
  "Action \<Rightarrow> string set \<Rightarrow> string set \<Rightarrow> FingerLoad \<Rightarrow> FingerConfigMap \<Rightarrow> string set
   \<Rightarrow> Finger set \<Rightarrow> Finger set \<Rightarrow> Finger set \<Rightarrow> ScoredKey list
   \<Rightarrow> ScoredKey option \<Rightarrow> real option \<Rightarrow> ScoredKey option" where
  "scanKeys action boundKeys lockedKeySet fingerLoad fingerConfig movementKeys
     movementFingers availableFingers blockedFingers [] bestKey minimumScore = bestKey"
| "scanKeys action boundKeys lockedKeySet fingerLoad fingerConfig movementKeys
     movementFingers availableFingers blockedFingers (scoredKey # rest) bestKey minimumScore =
     (if sk_code scoredKey \<in> boundKeys
         \<or> sk_code scoredKey \<in> lockedKeySet
         \<or> sk_code scoredKey \<in> movementKeys
         \<or> bestFinger scoredKey \<in> movementFingers
         \<or> bestFinger scoredKey \<notin> availableFingers
         \<or> bestFinger scoredKey \<in> blockedFingers
      then scanKeys action boundKeys lockedKeySet fingerLoad fingerConfig movementKeys
             movementFingers availableFingers blockedFingers rest bestKey minimumScore
      else
        (case map_of fingerConfig (bestFinger scoredKey) of
           None \<Rightarrow> scanKeys action boundKeys lockedKeySet fingerLoad fingerConfig movementKeys
                     movementFingers availableFingers blockedFingers rest bestKey minimumScore
         | Some config \<Rightarrow>
             if priority action \<noteq> 0
                \<and> totalScore scoredKey
                    > 4 + (reach config - 4) * ((100 - priority action) / 99)
             then scanKeys action boundKeys lockedKeySet fingerLoad fingerConfig movementKeys
                    movementFingers availableFingers blockedFingers rest bestKey minimumScore
             else
               (let currentLoad =
                      (case fingerLoad (bestFinger scoredKey) of None \<Rightarrow> 0 | Some l \<Rightarrow> l);
                    frequencyBonus = useFrequency action * (1 / 10);
                    loadPenalty = currentLoad * (5 / 100);
                    total = totalScore scoredKey - frequencyBonus + loadPenalty
                in if (case minimumScore of None \<Rightarrow> False | Some m \<Rightarrow> total \<ge> m)
                   then scanKeys action boundKeys lockedKeySet fingerLoad fingerConfig
                          movementKeys movementFingers availableFingers blockedFingers rest
                          bestKey minimumScore
                   else scanKeys action boundKeys lockedKeySet fingerLoad fingerConfig
                          movementKeys movementFingers availableFingers blockedFingers rest
                          (Some scoredKey) (Some total))))"

definition allocateNonMovementAction ::
  "Action \<Rightarrow> ScoredKey list \<Rightarrow> string set \<Rightarrow> string set \<Rightarrow> FingerLoad \<Rightarrow> FingerConfigMap
   \<Rightarrow> string set \<Rightarrow> Finger set \<Rightarrow> Finger set \<Rightarrow> (string \<rightharpoonup> Finger list) \<Rightarrow> Action list
   \<Rightarrow> AllocResult option \<times> FingerLoad" where
  "allocateNonMovementAction action scoredKeys boundKeys lockedKeySet fingerLoad fingerConfig
     movementKeys movementFingers availableFingers actionFingerMap allActions =
     (let blockedFingers = getBlockedFingersForConcurrency action actionFingerMap allActions in
      case scanKeys action boundKeys lockedKeySet fingerLoad fingerConfig movementKeys
             movementFingers availableFingers blockedFingers scoredKeys None None of
        None \<Rightarrow> (None, fingerLoad)
      | Some bestKey \<Rightarrow>
          (Some \<lparr>r_binding = \<lparr>b_action = name action, b_key = sk_code bestKey\<rparr>,
                 r_fingers = [bestFinger bestKey]\<rparr>,
           addFingerLoad fingerLoad (bestFinger bestKey) (useFrequency action)))"

text \<open>
  \<open>if (lockedKey)\<close>: a lock whose key is the empty string is falsy and counts as no lock.
\<close>

definition lockedKeyOf :: "LockedBinds \<Rightarrow> string \<Rightarrow> string option" where
  "lockedKeyOf lockedBinds n =
     (case lockedBinds n of None \<Rightarrow> None | Some k \<Rightarrow> if k = [] then None else Some k)"

definition allocateActionWithLoad ::
  "Action \<Rightarrow> ScoredKey list \<Rightarrow> string set \<Rightarrow> LockedBinds \<Rightarrow> string set \<Rightarrow> FingerLoad
   \<Rightarrow> FingerConfigMap \<Rightarrow> MovementConfig \<Rightarrow> string set \<Rightarrow> Finger set \<Rightarrow> Finger set
   \<Rightarrow> (string \<rightharpoonup> Finger list) \<Rightarrow> Action list \<Rightarrow> AllocResult option \<times> FingerLoad" where
  "allocateActionWithLoad action scoredKeys boundKeys lockedBinds lockedKeySet fingerLoad
     fingerConfig movementConfig movementKeys movementFingers availableFingers
     actionFingerMap allActions =
     (case lockedKeyOf lockedBinds (name action) of
        Some lockedKey \<Rightarrow>
          (let finger = (case find (\<lambda>k. sk_code k = lockedKey) scoredKeys of
                           None \<Rightarrow> RightIndex | Some keyScore \<Rightarrow> bestFinger keyScore)
           in (Some \<lparr>r_binding = \<lparr>b_action = name action, b_key = lockedKey\<rparr>,
                      r_fingers = [finger]\<rparr>, fingerLoad))
      | None \<Rightarrow>
          if atype action = DIRECTIONAL
          then allocateMovementAction action scoredKeys boundKeys movementConfig fingerLoad
          else allocateNonMovementAction action scoredKeys boundKeys lockedKeySet fingerLoad
                 fingerConfig movementKeys movementFingers availableFingers actionFingerMap
                 allActions)"

record PassState =
  bindings :: "Binding list"
  boundKeys :: "string set"
  fingerLoad :: FingerLoad
  actionFingerMap :: "string \<rightharpoonup> Finger list"

text \<open>The loop of \<open>allocatePass\<close> over the sorted actions.\<close>

fun passLoop ::
  "ScoredKey list \<Rightarrow> FingerConfigMap \<Rightarrow> MovementConfig \<Rightarrow> Finger set \<Rightarrow> LockedBinds
   \<Rightarrow> Action list \<Rightarrow> Action list \<Rightarrow> PassState \<Rightarrow> PassState" where
  "passLoop scoredKeys fingerConfig movementConfig availableFingers lockedBinds allActions
     [] st = st"
| "passLoop scoredKeys fingerConfig movementConfig availableFingers lockedBinds allActions
     (action # rest) st =
     (case allocateActionWithLoad action scoredKeys (boundKeys st) lockedBinds
             (ran lockedBinds) (fingerLoad st) fingerConfig movementConfig
             (buildMovementKeySet movementConfig)
             (buildExclusiveMovementFingers movementConfig) availableFingers
             (actionFingerMap st) allActions of
        (None, load) \<Rightarrow>
          passLoop scoredKeys fingerConfig movementConfig availableFingers lockedBinds
            allActions rest (st\<lparr>fingerLoad := load\<rparr>)
      | (Some result, load) \<Rightarrow>
          passLoop scoredKeys fingerConfig movementConfig availableFingers lockedBinds
            allActions rest
            \<lparr>bindings = bindings st @ [r_binding result],
             boundKeys = insert (b_key (r_binding result)) (boundKeys st),
             fingerLoad = load,
             actionFingerMap = (actionFingerMap st)(name action \<mapsto> r_fingers result)\<rparr>)"

definition allocatePass ::
  "Action list \<Rightarrow> ScoredKey list \<Rightarrow> FingerConfigMap \<Rightarrow> MovementConfig \<Rightarrow> Finger set
   \<Rightarrow> LockedBinds \<Rightarrow> PassState" where
  "allocatePass actions scoredKeys fingerConfig movementConfig availableFingers lockedBinds =
     passLoop scoredKeys fingerConfig movementConfig availableFingers lockedBinds actions
       (sortActionsByFrequency actions)
       \<lparr>bindings = [], boundKeys = {}, fingerLoad = Map.empty, actionFingerMap = Map.empty\<rparr>"

text \<open>\<open>new Map(allActions.map(a => [a.name, a]))\<close>: the last action of a name wins.\<close>

definition actionMapOf :: "Action list \<Rightarrow> (string \<rightharpoonup> Action)" where
  "actionMapOf allActions = foldl (\<lambda>m a. m(name a \<mapsto> a)) Map.empty allActions"

definition frequencyOf :: "(string \<rightharpoonup> Action) \<Rightarrow> string \<Rightarrow> real" where
  "frequencyOf actionMap n = (case actionMap n of None \<Rightarrow> 0 | Some a \<Rightarrow> useFrequency a)"

definition findDisplacementVictim ::
  "Action \<Rightarrow> Binding list \<Rightarrow> (string \<rightharpoonup> Finger list) \<Rightarrow> Action list \<Rightarrow> Binding option" where
  "findDisplacementVictim concurrentAction bs afm allActions =
     (let blockedFingers = getBlockedFingersForConcurrency concurrentAction afm allActions;
          candidates = filter (\<lambda>b. case afm (b_action b) of
                                      None \<Rightarrow> False
                                    | Some fs \<Rightarrow> \<exists>f\<in>set fs. f \<notin> blockedFingers) bs;
          evictable = filter (\<lambda>b. \<not> includesKey (concurrentWith concurrentAction) (b_action b))
                        candidates
      in case sort_key (\<lambda>b. frequencyOf (actionMapOf allActions) (b_action b)) evictable of
           [] \<Rightarrow> None
         | victim # _ \<Rightarrow> Some victim)"

fun addDisplacementLocks ::
  "PassState \<Rightarrow> Action list \<Rightarrow> Action list \<Rightarrow> LockedBinds \<Rightarrow> LockedBinds" where
  "addDisplacementLocks firstPass allActions [] newLocks = newLocks"
| "addDisplacementLocks firstPass allActions (action # rest) newLocks =
     (case findDisplacementVictim action (bindings firstPass) (actionFingerMap firstPass)
             allActions of
        None \<Rightarrow> addDisplacementLocks firstPass allActions rest newLocks
      | Some victim \<Rightarrow>
          addDisplacementLocks firstPass allActions rest (newLocks(name action \<mapsto> b_key victim)))"

definition unassignedConcurrent :: "PassState \<Rightarrow> Action list \<Rightarrow> Action list" where
  "unassignedConcurrent firstPass actions =
     filter (\<lambda>a. name a \<notin> set (map b_action (bindings firstPass))
                \<and> (case concurrentWith a of None \<Rightarrow> False | Some l \<Rightarrow> length l > 0)) actions"

definition allocate ::
  "Action list \<Rightarrow> ScoredKey list \<Rightarrow> FingerConfigMap \<Rightarrow> MovementConfig \<Rightarrow> Finger set
   \<Rightarrow> LockedBinds \<Rightarrow> Binding list" where
  "allocate actions scoredKeys fingerConfig movementConfig availableFingers lockedBinds =
     (let firstPassResult = allocatePass actions scoredKeys fingerConfig movementConfig
                              availableFingers lockedBinds
      in if unassignedConcurrent firstPassResult actions = []
         then bindings firstPassResult
         else bindings (allocatePass actions scoredKeys fingerConfig movementConfig
                          availableFingers
                          (addDisplacementLocks firstPassResult actions
                             (unassignedConcurrent firstPassResult actions) lockedBinds)))"

section \<open>Layouts, penalties and options (types.ts)\<close>

text \<open>
  A \<open>Layout\<close> is a \<open>Map\<close> from action name to key code. A JavaScript \<open>Map\<close> keeps its
  entries in insertion order and the code iterates over them, so the model is the list of
  entries; \<open>mapSet\<close> is \<open>Map.set\<close> (replace in place, or append) and \<^const>\<open>map_of\<close>
  is \<open>Map.get\<close>.
\<close>

type_synonym Layout = "(string \<times> string) list"

fun mapSet :: "('k \<times> 'v) list \<Rightarrow> 'k \<Rightarrow> 'v \<Rightarrow> ('k \<times> 'v) list" where
  "mapSet [] k v = [(k, v)]"
| "mapSet ((k', v') # rest) k v =
     (if k' = k then (k, v) # rest else (k', v') # mapSet rest k v)"

record PenaltyConfig =
  distanceWeight :: real
  frequencyWeight :: real
  concurrencyPenalty :: real
  exclusiveViolation :: real
  unreachablePenalty :: real

record SAOptions =
  initialTemp :: real
  coolingRate :: real
  minTemp :: real
  seed :: "real option"

definition DEFAULT_PENALTIES :: PenaltyConfig where
  "DEFAULT_PENALTIES =
     \<lparr>distanceWeight = 1, frequencyWeight = 1 / 10, concurrencyPenalty = 10000,
      exclusiveViolation = 100000, unreachablePenalty = 50000\<rparr>"

definition DEFAULT_SA_OPTIONS :: SAOptions where
  "DEFAULT_SA_OPTIONS =
     \<lparr>initialTemp = 1000, coolingRate = 995 / 1000, minTemp = 1 / 10, seed = None\<rparr>"

section \<open>The cost function (CostFunction.ts)\<close>

record FrictionContext =
  ctx_actions :: "Action list"
  ctx_scoredKeys :: "ScoredKey list"
  ctx_fingerConfig :: FingerConfigMap
  ctx_movementConfig :: MovementConfig
  keyToFinger :: "string \<rightharpoonup> Finger"
  keyToDistance :: "string \<rightharpoonup> real"
  movementKeySet :: "string set"
  movementActionToKey :: "string \<rightharpoonup> string"
  fingerExclusiveKeys :: "(Finger \<times> string set) list"

text \<open>
  The chain \<open>forward / backward / left / right\<close> on the lower-cased name, which
  \<open>buildFrictionContext\<close> and \<open>buildMovementActionMap\<close> both spell out.
\<close>

definition directionKey :: "string \<Rightarrow> MovementConfig \<Rightarrow> string option" where
  "directionKey actionName config =
     (let n = toLowerCase actionName in
      if str_includes n ''forward'' then Some (positiveKey (verticalAxis config))
      else if str_includes n ''backward'' then Some (negativeKey (verticalAxis config))
      else if str_includes n ''left'' then Some (negativeKey (horizontalAxis config))
      else if str_includes n ''right'' then Some (positiveKey (horizontalAxis config))
      else None)"

definition buildFrictionContext ::
  "Action list \<Rightarrow> ScoredKey list \<Rightarrow> FingerConfigMap \<Rightarrow> MovementConfig \<Rightarrow> FrictionContext" where
  "buildFrictionContext actions scoredKeys fingerConfig movementConfig =
     \<lparr>ctx_actions = actions, ctx_scoredKeys = scoredKeys, ctx_fingerConfig = fingerConfig,
      ctx_movementConfig = movementConfig,
      keyToFinger = foldl (\<lambda>m sk. m(sk_code sk \<mapsto> bestFinger sk)) Map.empty scoredKeys,
      keyToDistance = foldl (\<lambda>m sk. m(sk_code sk \<mapsto> totalScore sk)) Map.empty scoredKeys,
      movementKeySet =
        {positiveKey (verticalAxis movementConfig), negativeKey (verticalAxis movementConfig),
         positiveKey (horizontalAxis movementConfig), negativeKey (horizontalAxis movementConfig)},
      movementActionToKey =
        foldl (\<lambda>m action.
                 if atype action \<noteq> DIRECTIONAL then m
                 else (case directionKey (name action) movementConfig of
                         None \<Rightarrow> m
                       | Some k \<Rightarrow> m(name action \<mapsto> k)))
          Map.empty actions,
      fingerExclusiveKeys =
        map (\<lambda>(finger, config).
               (finger, (case exclusiveKeys config of None \<Rightarrow> {} | Some ks \<Rightarrow> set ks)))
          (filter (\<lambda>(finger, config). hasExclusiveKeys config) fingerConfig)\<rparr>"

definition buildExclusiveFingerSet :: "MovementConfig \<Rightarrow> Finger set" where
  "buildExclusiveFingerSet config =
     (if isExclusive (verticalAxis config) then set (fingers (verticalAxis config)) else {})
     \<union> (if isExclusive (horizontalAxis config) then set (fingers (horizontalAxis config)) else {})"

text \<open>The finger loads of a layout, in the order the fingers are first met.\<close>

fun loadLoop ::
  "FrictionContext \<Rightarrow> (string \<rightharpoonup> Action) \<Rightarrow> Layout \<Rightarrow> (Finger \<times> real) list
   \<Rightarrow> (Finger \<times> real) list" where
  "loadLoop ctx actionMap [] loads = loads"
| "loadLoop ctx actionMap ((actionName, keyCode) # rest) loads =
     (case (actionMap actionName, keyToFinger ctx keyCode) of
        (Some action, Some finger) \<Rightarrow>
          loadLoop ctx actionMap rest
            (mapSet loads finger
               ((case map_of loads finger of None \<Rightarrow> 0 | Some l \<Rightarrow> l) + useFrequency action))
      | _ \<Rightarrow> loadLoop ctx actionMap rest loads)"

definition calculateFingerLoads :: "Layout \<Rightarrow> FrictionContext \<Rightarrow> (Finger \<times> real) list" where
  "calculateFingerLoads layout ctx = loadLoop ctx (actionMapOf (ctx_actions ctx)) layout []"

definition calculateLoadImbalance ::
  "Layout \<Rightarrow> FrictionContext \<Rightarrow> (string \<rightharpoonup> Action) \<Rightarrow> real" where
  "calculateLoadImbalance layout ctx actionMap =
     (let fingerLoads = loadLoop ctx actionMap layout [] in
      if length fingerLoads < 2 then 0
      else (Max (set (map snd fingerLoads)) - Min (set (map snd fingerLoads))) * (1 / 2))"

text \<open>What one entry of the layout adds to the score: the body of the main loop.\<close>

definition entryFriction ::
  "Layout \<Rightarrow> FrictionContext \<Rightarrow> PenaltyConfig \<Rightarrow> Finger set \<Rightarrow> (string \<rightharpoonup> Action)
   \<Rightarrow> string \<times> string \<Rightarrow> real" where
  "entryFriction layout ctx penalties exclusiveFingers actionMap entry =
     (case entry of (actionName, keyCode) \<Rightarrow>
      case actionMap actionName of
        None \<Rightarrow> 0
      | Some action \<Rightarrow>
          (let finger = keyToFinger ctx keyCode;
               distance = (case keyToDistance ctx keyCode of None \<Rightarrow> 100 | Some d \<Rightarrow> d)
           in
             (if atype action = DIRECTIONAL
                 \<and> (case movementActionToKey ctx actionName of
                       None \<Rightarrow> False
                     | Some correctKey \<Rightarrow> correctKey \<noteq> [] \<and> keyCode \<noteq> correctKey)
              then 1000000 else 0)
           + (if atype action \<noteq> DIRECTIONAL \<and> keyCode \<in> movementKeySet ctx
              then 500000 else 0)
           + (case finger of
                None \<Rightarrow> 0
              | Some f \<Rightarrow>
                  (case map_of (fingerExclusiveKeys ctx) f of
                     None \<Rightarrow> 0
                   | Some fingerExclusive \<Rightarrow> if keyCode \<notin> fingerExclusive then 200000 else 0)
                  + sum_list (map (\<lambda>(otherFinger, exclusiveSet).
                                     if otherFinger \<noteq> f \<and> keyCode \<in> exclusiveSet
                                     then 200000 else 0)
                               (fingerExclusiveKeys ctx)))
           + distance * useFrequency action * frequencyWeight penalties
           + distance * distanceWeight penalties
           + (case finger of
                None \<Rightarrow> 0
              | Some f \<Rightarrow>
                  if f \<in> exclusiveFingers \<and> atype action \<noteq> DIRECTIONAL
                  then exclusiveViolation penalties else 0)
           + (case finger of
                None \<Rightarrow> 0
              | Some f \<Rightarrow>
                  (case map_of (ctx_fingerConfig ctx) f of
                     None \<Rightarrow> 0
                   | Some config \<Rightarrow>
                       if distance > reach config then unreachablePenalty penalties else 0))
           + (case concurrentWith action of
                None \<Rightarrow> 0
              | Some others \<Rightarrow>
                  sum_list (map (\<lambda>otherName.
                      case map_of layout otherName of
                        None \<Rightarrow> 0
                      | Some otherKey \<Rightarrow>
                          if otherKey = [] then 0
                          else (case (finger, keyToFinger ctx otherKey) of
                                  (Some f, Some otherFinger) \<Rightarrow>
                                    if f = otherFinger then concurrencyPenalty penalties else 0
                                | _ \<Rightarrow> 0))
                    others))))"

definition calculateFriction :: "Layout \<Rightarrow> FrictionContext \<Rightarrow> PenaltyConfig \<Rightarrow> real" where
  "calculateFriction layout ctx penalties =
     (let actionMap = actionMapOf (ctx_actions ctx);
          exclusiveFingers = buildExclusiveFingerSet (ctx_movementConfig ctx)
      in sum_list (map (entryFriction layout ctx penalties exclusiveFingers actionMap) layout)
         + calculateLoadImbalance layout ctx actionMap)"

section \<open>SeededRandom (SimulatedAnnealing.ts)\<close>

text \<open>
  The generator computes \<open>(seed * 1103515245 + 12345) & 0x7fffffff\<close> on binary64 numbers.
  \<open>round53\<close> is the rounding of a real to the nearest number with a 53-bit significand,
  ties to even (the exponent range is taken as unbounded); the product and the sum are each
  rounded. \<open>&\<close> first converts its operand to a 32-bit integer: the fraction is dropped
  towards zero and the integer is taken modulo \<open>2^32\<close>.
\<close>

definition roundHalfEven :: "real \<Rightarrow> int" where
  "roundHalfEven q =
     (let f = \<lfloor>q\<rfloor>; d = q - of_int f in
      if d < 1 / 2 then f
      else if d > 1 / 2 then f + 1
      else if even f then f else f + 1)"

definition round53 :: "real \<Rightarrow> real" where
  "round53 v =
     (if v = 0 then 0
      else let u = 2 powr (of_int \<lfloor>log 2 \<bar>v\<bar>\<rfloor> - 52)
           in of_int (roundHalfEven (v / u)) * u)"

definition truncToInt :: "real \<Rightarrow> int" where
  "truncToInt v = (if v < 0 then \<lceil>v\<rceil> else \<lfloor>v\<rfloor>)"

definition toInt32 :: "real \<Rightarrow> 32 word" where
  "toInt32 v = word_of_int (truncToInt v)"

text \<open>\<open>next()\<close>: the value returned and the new seed.\<close>

definition SeededRandom_next :: "real \<Rightarrow> real \<times> real" where
  "SeededRandom_next s =
     (let s' = real_of_int
                 (uint (and (toInt32 (round53 (round53 (s * 1103515245) + 12345)))
                          (0x7fffffff :: 32 word)))
      in (round53 (s' / 0x7fffffff), s'))"

text \<open>\<open>arr[i]\<close>: \<open>undefined\<close>, written \<open>None\<close>, outside the array.\<close>

definition arrayGet :: "'a list \<Rightarrow> int \<Rightarrow> 'a option" where
  "arrayGet arr i = (if 0 \<le> i \<and> i < int (length arr) then Some (arr ! nat i) else None)"

definition pick :: "real \<Rightarrow> 'a list \<Rightarrow> 'a option \<times> real" where
  "pick s arr =
     (case SeededRandom_next s of
        (r, s') \<Rightarrow> (arrayGet arr \<lfloor>round53 (r * real (length arr))\<rfloor>, s'))"

definition pickTwo :: "real \<Rightarrow> 'a list \<Rightarrow> ('a option \<times> 'a option) \<times> real" where
  "pickTwo s arr =
     (case SeededRandom_next s of
        (r1, s1) \<Rightarrow>
          (case SeededRandom_next s1 of
             (r2, s2) \<Rightarrow>
               (let i = \<lfloor>round53 (r1 * real (length arr))\<rfloor>;
                    j = \<lfloor>round53 (r2 * (real (length arr) - 1))\<rfloor>;
                    j' = (if j \<ge> i then j + 1 else j)
                in ((arrayGet arr i, arrayGet arr j'), s2))))"

section \<open>The annealing optimizer (SimulatedAnnealing.ts)\<close>

definition buildMovementActionMap :: "Action list \<Rightarrow> MovementConfig \<Rightarrow> Layout" where
  "buildMovementActionMap actions config =
     foldl (\<lambda>m action.
              if atype action \<noteq> DIRECTIONAL then m
              else (case directionKey (name action) config of
                      None \<Rightarrow> m
                    | Some k \<Rightarrow> mapSet m (name action) k))
       [] actions"

record InitState =
  i_layout :: Layout
  usedKeys :: "string set"
  usedActions :: "string set"

definition assign :: "InitState \<Rightarrow> string \<Rightarrow> string \<Rightarrow> InitState" where
  "assign st actionName keyCode =
     \<lparr>i_layout = mapSet (i_layout st) actionName keyCode,
      usedKeys = insert keyCode (usedKeys st),
      usedActions = insert actionName (usedActions st)\<rparr>"

text \<open>Step 2, inner loop: the exclusive keys of one finger.\<close>

fun exclusiveKeyLoop :: "Action list \<Rightarrow> string list \<Rightarrow> InitState \<Rightarrow> InitState" where
  "exclusiveKeyLoop nonMovement [] st = st"
| "exclusiveKeyLoop nonMovement (k # rest) st =
     (if k \<in> usedKeys st then exclusiveKeyLoop nonMovement rest st
      else (case find (\<lambda>a. name a \<notin> usedActions st) nonMovement of
              None \<Rightarrow> st
            | Some action \<Rightarrow> exclusiveKeyLoop nonMovement rest (assign st (name action) k)))"

fun exclusiveFingerLoop :: "Action list \<Rightarrow> FingerConfigMap \<Rightarrow> InitState \<Rightarrow> InitState" where
  "exclusiveFingerLoop nonMovement [] st = st"
| "exclusiveFingerLoop nonMovement ((finger, config) # rest) st =
     (case exclusiveKeys config of
        None \<Rightarrow> exclusiveFingerLoop nonMovement rest st
      | Some ks \<Rightarrow>
          if length ks = 0 then exclusiveFingerLoop nonMovement rest st
          else exclusiveFingerLoop nonMovement rest (exclusiveKeyLoop nonMovement ks st))"

text \<open>Step 3: the first free scored key; this loop does not touch \<open>usedActions\<close>.\<close>

fun remainingLoop :: "ScoredKey list \<Rightarrow> Action list \<Rightarrow> InitState \<Rightarrow> InitState" where
  "remainingLoop scoredKeys [] st = st"
| "remainingLoop scoredKeys (action # rest) st =
     (case find (\<lambda>sk. sk_code sk \<notin> usedKeys st) scoredKeys of
        None \<Rightarrow> remainingLoop scoredKeys rest st
      | Some sk \<Rightarrow>
          remainingLoop scoredKeys rest
            (st\<lparr>i_layout := mapSet (i_layout st) (name action) (sk_code sk),
                usedKeys := insert (sk_code sk) (usedKeys st)\<rparr>))"

definition generateInitialLayout ::
  "Action list \<Rightarrow> ScoredKey list \<Rightarrow> MovementConfig \<Rightarrow> FingerConfigMap \<Rightarrow> Layout" where
  "generateInitialLayout actions scoredKeys movementConfig fingerConfig =
     (let movementMap = buildMovementActionMap actions movementConfig;
          st1 = foldl (\<lambda>st (actionName, keyCode). assign st actionName keyCode)
                  \<lparr>i_layout = [], usedKeys = {}, usedActions = {}\<rparr> movementMap;
          nonMovement = sort_key (\<lambda>a. - useFrequency a)
                          (filter (\<lambda>a. name a \<notin> usedActions st1) actions);
          st2 = exclusiveFingerLoop nonMovement fingerConfig st1;
          remaining = filter (\<lambda>a. name a \<notin> usedActions st2) nonMovement;
          st3 = remainingLoop scoredKeys remaining st2
      in i_layout st3)"

text \<open>
  \<open>swap\<close> receives what \<open>pick\<close> returned, which is \<open>undefined\<close> for an index outside
  the array; a missing or empty key is falsy and leaves the layout as it is.
\<close>

definition swap :: "Layout \<Rightarrow> string option \<Rightarrow> string option \<Rightarrow> Layout" where
  "swap layout actionA actionB =
     (case (actionA, actionB) of
        (Some a, Some b) \<Rightarrow>
          (case (map_of layout a, map_of layout b) of
             (Some keyA, Some keyB) \<Rightarrow>
               if keyA \<noteq> [] \<and> keyB \<noteq> []
               then mapSet (mapSet layout a keyB) b keyA
               else layout
           | _ \<Rightarrow> layout)
      | _ \<Rightarrow> layout)"

definition onFinger :: "Layout \<Rightarrow> (string \<rightharpoonup> Finger) \<Rightarrow> Finger \<Rightarrow> string \<Rightarrow> bool" where
  "onFinger layout k2f finger a =
     (case map_of layout a of
        None \<Rightarrow> False
      | Some k \<Rightarrow> k \<noteq> [] \<and> k2f k = Some finger)"

text \<open>
  The conflict scan of \<open>mutate\<close>. \<open>Some\<close> is the \<open>return\<close> inside the loops, \<open>None\<close>
  means the loop ran to its end.
\<close>

fun conflictInner ::
  "Layout \<Rightarrow> (string \<rightharpoonup> Finger) \<Rightarrow> real \<Rightarrow> string \<Rightarrow> Finger option \<Rightarrow> string list
   \<Rightarrow> (Layout \<times> real) option" where
  "conflictInner layout k2f s actionName finger [] = None"
| "conflictInner layout k2f s actionName finger (otherName # rest) =
     (case map_of layout otherName of
        None \<Rightarrow> conflictInner layout k2f s actionName finger rest
      | Some otherKey \<Rightarrow>
          if otherKey = [] then conflictInner layout k2f s actionName finger rest
          else if finger \<noteq> None \<and> k2f otherKey \<noteq> None \<and> finger = k2f otherKey
          then (let nonConflict = filter (\<lambda>a. a \<noteq> actionName \<and> a \<noteq> otherName)
                                    (map fst layout)
                in if length nonConflict > 0
                   then (case pick s nonConflict of
                           (p, s') \<Rightarrow> Some (swap layout (Some otherName) p, s'))
                   else conflictInner layout k2f s actionName finger rest)
          else conflictInner layout k2f s actionName finger rest)"

fun conflictOuter ::
  "Layout \<Rightarrow> (string \<rightharpoonup> Finger) \<Rightarrow> real \<Rightarrow> (string \<rightharpoonup> Action) \<Rightarrow> Layout
   \<Rightarrow> (Layout \<times> real) option" where
  "conflictOuter layout k2f s actionMap [] = None"
| "conflictOuter layout k2f s actionMap ((actionName, keyCode) # rest) =
     (case actionMap actionName of
        None \<Rightarrow> conflictOuter layout k2f s actionMap rest
      | Some action \<Rightarrow>
          (case concurrentWith action of
             None \<Rightarrow> conflictOuter layout k2f s actionMap rest
           | Some others \<Rightarrow>
               (case conflictInner layout k2f s actionName (k2f keyCode) others of
                  Some r \<Rightarrow> Some r
                | None \<Rightarrow> conflictOuter layout k2f s actionMap rest)))"

definition conflictSwap ::
  "Layout \<Rightarrow> Action list \<Rightarrow> (string \<rightharpoonup> Finger) \<Rightarrow> real \<Rightarrow> Layout \<times> real" where
  "conflictSwap layout actions k2f s =
     (case conflictOuter layout k2f s (actionMapOf actions) layout of
        Some r \<Rightarrow> r
      | None \<Rightarrow> (layout, s))"

text \<open>\<open>mutate\<close> returns the neighbour and the generator's new seed.\<close>

definition mutate ::
  "Layout \<Rightarrow> (Finger \<times> real) list \<Rightarrow> Action list \<Rightarrow> (string \<rightharpoonup> Finger) \<Rightarrow> real
   \<Rightarrow> Layout \<times> real" where
  "mutate layout fingerLoads actions k2f s =
     (let actionNames = map fst layout in
      case SeededRandom_next s of
        (roll, s1) \<Rightarrow>
          if roll < 7 / 10
          then (case pickTwo s1 actionNames of
                  ((a, b), s2) \<Rightarrow> (swap layout a b, s2))
          else if roll < 9 / 10
          then (let sorted = sort_key (\<lambda>e. - snd e) fingerLoads in
                if length sorted < 2 then (layout, s1)
                else
                  (let highFinger = fst (hd sorted);
                       lowFinger = fst (last sorted);
                       highActions = filter (onFinger layout k2f highFinger) actionNames;
                       lowActions = filter (onFinger layout k2f lowFinger) actionNames
                   in if length highActions > 0 \<and> length lowActions > 0
                      then (case pick s1 highActions of
                              (a, s2) \<Rightarrow>
                                (case pick s2 lowActions of
                                   (b, s3) \<Rightarrow> (swap layout a b, s3)))
                      else conflictSwap layout actions k2f s1))
          else conflictSwap layout actions k2f s1)"

record SAState =
  current :: Layout
  currentScore :: real
  best :: Layout
  bestScore :: real
  temp :: real
  rng :: real

text \<open>
  One round of the \<open>while\<close> loop. The acceptance test short-circuits: the generator is
  asked for a number only when the neighbour is not better.
\<close>

definition saStep ::
  "Action list \<Rightarrow> FrictionContext \<Rightarrow> PenaltyConfig \<Rightarrow> SAOptions \<Rightarrow> SAState \<Rightarrow> SAState" where
  "saStep actions ctx penalties options st =
     (let fingerLoads = calculateFingerLoads (current st) ctx in
      case mutate (current st) fingerLoads actions (keyToFinger ctx) (rng st) of
        (neighbor, s1) \<Rightarrow>
          (let neighborScore = calculateFriction neighbor ctx penalties;
               delta = neighborScore - currentScore st;
               decision = (if delta < 0 then (True, s1)
                           else (case SeededRandom_next s1 of
                                   (r, s2) \<Rightarrow> (r < exp (- delta / temp st), s2)));
               accepted = fst decision;
               s3 = snd decision
           in \<lparr>current = (if accepted then neighbor else current st),
                currentScore = (if accepted then neighborScore else currentScore st),
                best = (if accepted \<and> neighborScore < bestScore st then neighbor else best st),
                bestScore = (if accepted \<and> neighborScore < bestScore st
                             then neighborScore else bestScore st),
                temp = temp st * coolingRate options,
                rng = s3\<rparr>))"

text \<open>
  The loop has no bound in the source: it ends when the temperature has fallen to
  \<open>minTemp\<close>, and runs forever when it never does. \<open>None\<close> is the run that does not return.
\<close>

partial_function (option) saLoop ::
  "Action list \<Rightarrow> FrictionContext \<Rightarrow> PenaltyConfig \<Rightarrow> SAOptions \<Rightarrow> SAState \<Rightarrow> Layout option" where
  "saLoop actions ctx penalties options st =
     (if temp st > minTemp options
      then saLoop actions ctx penalties options (saStep actions ctx penalties options st)
      else Some (best st))"

text \<open>\<open>now\<close> is the value of \<open>Date.now()\<close>, read only when no seed is given.\<close>

definition optimizeSA ::
  "real \<Rightarrow> Action list \<Rightarrow> ScoredKey list \<Rightarrow> FingerConfigMap \<Rightarrow> MovementConfig
   \<Rightarrow> PenaltyConfig \<Rightarrow> SAOptions \<Rightarrow> Layout option" where
  "optimizeSA now actions scoredKeys fingerConfig movementConfig penalties options =
     (let ctx = buildFrictionContext actions scoredKeys fingerConfig movementConfig;
          s = (case seed options of None \<Rightarrow> now | Some v \<Rightarrow> v);
          start = generateInitialLayout actions scoredKeys movementConfig fingerConfig;
          startScore = calculateFriction start ctx penalties
      in saLoop actions ctx penalties options
           \<lparr>current = start, currentScore = startScore, best = start,
            bestScore = startScore, temp = initialTemp options, rng = s\<rparr>)"

definition layoutToBindings :: "Layout \<Rightarrow> Binding list" where
  "layoutToBindings layout = map (\<lambda>(a, k). \<lparr>b_action = a, b_key = k\<rparr>) layout"

section \<open>Predicates used in the statements\<close>

text \<open>
  \<open>genuine\<close>: a scorer result comes from a configured finger whose distance lookup
  succeeded, or whose resting key is the key itself; its cost is that distance plus the
  finger's penalty for the key.
\<close>

definition genuine :: "Optimizer \<Rightarrow> string \<Rightarrow> FingerConfigMap \<Rightarrow> Closest \<Rightarrow> bool" where
  "genuine opt keyCode fingerConfig r \<longleftrightarrow>
     (\<exists>config. (cl_finger r, config) \<in> set fingerConfig
        \<and> cl_originKey r = restingKey config
        \<and> (if keyCode = restingKey config
            then cl_distance r = penaltyOf config keyCode
            else keyMap opt keyCode \<noteq> None \<and> keyMap opt (restingKey config) \<noteq> None
                 \<and> cl_distance r
                     = getDistance opt keyCode (restingKey config) + penaltyOf config keyCode))"

text \<open>
  \<open>stepOrigin\<close>: the three ways one step of the pass produces a binding for an action,
  \<open>bk\<close> being the keys bound before the step: through its lock, on a key of its axis, or
  by the scan over the scored keys.
\<close>

definition stepOrigin ::
  "LockedBinds \<Rightarrow> MovementConfig \<Rightarrow> string set \<Rightarrow> Action \<Rightarrow> Binding \<Rightarrow> bool" where
  "stepOrigin locks mc bk a b \<longleftrightarrow>
     b_action b = name a \<and>
     (lockedKeyOf locks (name a) = Some (b_key b)
      \<or> (lockedKeyOf locks (name a) = None \<and> atype a = DIRECTIONAL \<and> b_key b \<notin> bk
          \<and> (\<exists>ax. findAxisForAction a mc = Some ax
                \<and> (b_key b = positiveKey ax \<or> b_key b = negativeKey ax)))
      \<or> (lockedKeyOf locks (name a) = None \<and> atype a \<noteq> DIRECTIONAL \<and> b_key b \<notin> bk
          \<and> b_key b \<notin> ran locks \<and> b_key b \<notin> buildMovementKeySet mc))"

definition hasConcurrent :: "Action \<Rightarrow> bool" where
  "hasConcurrent a = (case concurrentWith a of None \<Rightarrow> False | Some l \<Rightarrow> length l > 0)"

section \<open>Fixtures (Optimizer.test.ts)\<close>

text \<open>A finger with a resting key and a reach, and neither optional field.\<close>

definition mkFinger :: "string \<Rightarrow> real \<Rightarrow> FingerConfig" where
  "mkFinger k r = \<lparr>restingKey = k, reach = r, exclusiveKeys = None, keyPenalties = Map.empty\<rparr>"

definition DEFAULT_FINGER_CONFIG :: FingerConfigMap where
  "DEFAULT_FINGER_CONFIG =
     [(LeftMiddle, mkFinger ''KeyW'' 12), (LeftIndex, mkFinger ''KeyD'' 12),
      (RightIndex, mkFinger ''KeyF'' 12), (RightMiddle, mkFinger ''KeyG'' 12),
      (RightRing, mkFinger ''KeyH'' 12), (RightPinky, mkFinger ''KeyJ'' 12),
      (RightThumb, mkFinger ''Space'' 8)]"

definition DEFAULT_MOVEMENT_CONFIG :: MovementConfig where
  "DEFAULT_MOVEMENT_CONFIG =
     \<lparr>verticalAxis = \<lparr>positiveKey = ''KeyW'', negativeKey = ''KeyS'',
                       fingers = [LeftMiddle], isExclusive = True\<rparr>,
      horizontalAxis = \<lparr>positiveKey = ''KeyD'', negativeKey = ''KeyA'',
                         fingers = [LeftIndex], isExclusive = True\<rparr>\<rparr>"

definition DEFAULT_AVAILABLE_FINGERS :: "Finger set" where
  "DEFAULT_AVAILABLE_FINGERS = {RightIndex, RightMiddle, RightRing, RightPinky, RightThumb}"

definition mkScored :: "string \<Rightarrow> real \<Rightarrow> Finger \<Rightarrow> string \<Rightarrow> ScoredKey" where
  "mkScored c s f ok =
     \<lparr>sk_code = c, totalScore = s, bestFinger = f, originKey = ok,
      isRestingKey = (s = 0), isMovement = False\<rparr>"

text \<open>The keys and actions of the test "respects locked binds".\<close>

definition lockTestKeys :: "ScoredKey list" where
  "lockTestKeys =
     [mkScored ''KeyF'' 0 RightIndex ''KeyF'', mkScored ''KeyG'' 4 RightMiddle ''KeyG'']"

definition mkAction :: "string \<Rightarrow> real \<Rightarrow> ActionType \<Rightarrow> real \<Rightarrow> Action" where
  "mkAction n p t f =
     \<lparr>name = n, priority = p, atype = t, useFrequency = f, concurrentWith = None\<rparr>"

definition lockTestActions :: "Action list" where
  "lockTestActions = [mkAction ''Jump'' 80 COMBAT 50, mkAction ''Shoot'' 80 COMBAT 50]"

text \<open>A movement action, and scored keys that hold its axis.\<close>

definition moveForward :: Action where
  "moveForward = mkAction ''Move Forward'' 80 DIRECTIONAL 60"

definition axisTestKeys :: "ScoredKey list" where
  "axisTestKeys =
     [(mkScored ''KeyW'' 0 LeftMiddle ''KeyW'')\<lparr>isMovement := True\<rparr>,
      mkScored ''KeyF'' 0 RightIndex ''KeyF'']"

text \<open>A thumb that owns the two side buttons of the mouse, and an index finger.\<close>

definition sideButtonThumb :: "string \<Rightarrow> FingerConfig" where
  "sideButtonThumb rest =
     \<lparr>restingKey = rest, reach = 8, exclusiveKeys = Some [''Mouse4'', ''Mouse5''],
      keyPenalties = Map.empty\<rparr>"

text \<open>Four keys of the home row, for the radius query.\<close>

definition rowKeys :: "KeyDef list" where
  "rowKeys =
     [mkKey ''KeyG'' 23 8 4, mkKey ''KeyP'' 42 4 4, mkKey ''KeyD'' 15 8 4, mkKey ''KeyF'' 19 8 4]"

text \<open>
  \<open>sameKeys\<close>: two layouts bind the same actions, in the same order, to the same keys
  counted with multiplicity. \<open>initInv\<close>: in the state of the warm start no action occurs
  twice, no key occurs twice, and every key of the layout is recorded as used.
\<close>

definition sameKeys :: "Layout \<Rightarrow> Layout \<Rightarrow> bool" where
  "sameKeys init l \<longleftrightarrow> map fst l = map fst init \<and> mset (map snd l) = mset (map snd init)"

definition initInv :: "InitState \<Rightarrow> bool" where
  "initInv st \<longleftrightarrow>
     distinct (map fst (i_layout st)) \<and> distinct (map snd (i_layout st))
     \<and> snd ` set (i_layout st) \<subseteq> usedKeys st"

text \<open>Two movement actions of the same direction, and a movement action beside a jump.\<close>

definition twoForward :: "Action list" where
  "twoForward =
     [mkAction ''Move Forward'' 80 DIRECTIONAL 60, mkAction ''Sprint Forward'' 80 DIRECTIONAL 40]"

definition forwardAndJump :: "Action list" where
  "forwardAndJump = [moveForward, mkAction ''Jump'' 80 COMBAT 50]"

text \<open>Scored keys around the movement cluster, three actions, and two layouts of them.\<close>

definition clusterKeys :: "ScoredKey list" where
  "clusterKeys =
     [mkScored ''KeyW'' 0 LeftMiddle ''KeyW'', mkScored ''KeyS'' 4 LeftMiddle ''KeyW'',
      mkScored ''KeyA'' 8 LeftIndex ''KeyD'', mkScored ''KeyD'' 0 LeftIndex ''KeyD'',
      mkScored ''KeyF'' 0 RightIndex ''KeyF'', mkScored ''KeyG'' 0 RightMiddle ''KeyG'',
      mkScored ''KeyH'' 0 RightRing ''KeyH'']"

definition clusterActions :: "Action list" where
  "clusterActions =
     [moveForward, mkAction ''Jump'' 80 COMBAT 50, mkAction ''Shoot'' 80 COMBAT 50]"

definition forwardMisplaced :: Layout where
  "forwardMisplaced =
     [(''Move Forward'', ''KeyF''), (''Jump'', ''KeyG''), (''Shoot'', ''KeyH'')]"

definition forwardInPlace :: Layout where
  "forwardInPlace =
     [(''Move Forward'', ''KeyW''), (''Jump'', ''KeyS''), (''Shoot'', ''KeyA'')]"

definition forwardAtHome :: Layout where
  "forwardAtHome =
     [(''Move Forward'', ''KeyW''), (''Jump'', ''KeyG''), (''Shoot'', ''KeyH'')]"

definition clusterContext :: FrictionContext where
  "clusterContext =
     buildFrictionContext clusterActions clusterKeys DEFAULT_FINGER_CONFIG DEFAULT_MOVEMENT_CONFIG"

text \<open>
  \<open>displacedKeys\<close>: the keys the displacement repair pins an action to, that is the keys
  of the victims it finds for the actions the first pass left out.
\<close>

definition displacedKeys :: "PassState \<Rightarrow> Action list \<Rightarrow> string set" where
  "displacedKeys firstPass actions =
     set (concat (map
            (\<lambda>a. case findDisplacementVictim a (bindings firstPass) (actionFingerMap firstPass)
                          actions of
                    None \<Rightarrow> []
                  | Some victim \<Rightarrow> [b_key victim])
            (unassignedConcurrent firstPass actions)))"

text \<open>
  \<open>saStart\<close>: the state in which \<open>optimizeSA\<close> enters its loop when the generator starts
  from \<open>s\<close>. \<open>saRounds\<close>: the state after \<open>n\<close> rounds of the loop from there.
\<close>

definition saStart ::
  "Action list \<Rightarrow> ScoredKey list \<Rightarrow> FingerConfigMap \<Rightarrow> MovementConfig \<Rightarrow> PenaltyConfig
   \<Rightarrow> SAOptions \<Rightarrow> real \<Rightarrow> SAState" where
  "saStart actions scoredKeys fingerConfig movementConfig penalties options s =
     (let ctx = buildFrictionContext actions scoredKeys fingerConfig movementConfig;
          start = generateInitialLayout actions scoredKeys movementConfig fingerConfig;
          startScore = calculateFriction start ctx penalties
      in \<lparr>current = start, currentScore = startScore, best = start,
          bestScore = startScore, temp = initialTemp options, rng = s\<rparr>)"

definition saRounds ::
  "Action list \<Rightarrow> ScoredKey list \<Rightarrow> FingerConfigMap \<Rightarrow> MovementConfig \<Rightarrow> PenaltyConfig
   \<Rightarrow> SAOptions \<Rightarrow> real \<Rightarrow> nat \<Rightarrow> SAState" where
  "saRounds actions scoredKeys fingerConfig movementConfig penalties options s n =
     ((saStep actions (buildFrictionContext actions scoredKeys fingerConfig movementConfig)
         penalties options) ^^ n)
       (saStart actions scoredKeys fingerConfig movementConfig penalties options s)"

text \<open>
  Actions for the displacement repair: \<open>C\<close> must be pressable together with \<open>X\<close>, and
  \<open>A\<close> is the action the caller locks.
\<close>

definition repairActions :: "Action list" where
  "repairActions =
     [mkAction ''X'' 80 COMBAT 100, mkAction ''A'' 80 COMBAT 50,
      (mkAction ''C'' 80 COMBAT 10)\<lparr>concurrentWith := Some [''X'']\<rparr>]"

definition repairActionsWithSpare :: "Action list" where
  "repairActionsWithSpare =
     [mkAction ''X'' 80 COMBAT 100, mkAction ''A'' 80 COMBAT 50, mkAction ''B'' 80 COMBAT 30,
      (mkAction ''C'' 80 COMBAT 10)\<lparr>concurrentWith := Some [''X'']\<rparr>]"

definition repairKeys :: "ScoredKey list" where
  "repairKeys =
     [mkScored ''KeyF'' 0 RightIndex ''KeyF'', mkScored ''KeyG'' 4 RightMiddle ''KeyG'',
      mkScored ''KeyH'' 4 RightRing ''KeyH'']"

section \<open>Geometry: distances and the radius query\<close>

lemma euclidean_ge_dx: "\<bar>p_x a - p_x b\<bar> \<le> euclidean a b"
proof -
  have "\<bar>p_x a - p_x b\<bar> = sqrt ((p_x a - p_x b) * (p_x a - p_x b))"
    by (simp add: real_sqrt_mult_self)
  also have "\<dots> \<le> sqrt ((p_x a - p_x b) * (p_x a - p_x b) + (p_y a - p_y b) * (p_y a - p_y b))"
    by (rule real_sqrt_le_mono) simp
  finally show ?thesis by (simp add: euclidean_def Let_def)
qed

lemma euclidean_ge_dy: "\<bar>p_y a - p_y b\<bar> \<le> euclidean a b"
proof -
  have "\<bar>p_y a - p_y b\<bar> = sqrt ((p_y a - p_y b) * (p_y a - p_y b))"
    by (simp add: real_sqrt_mult_self)
  also have "\<dots> \<le> sqrt ((p_x a - p_x b) * (p_x a - p_x b) + (p_y a - p_y b) * (p_y a - p_y b))"
    by (rule real_sqrt_le_mono) simp
  finally show ?thesis by (simp add: euclidean_def Let_def)
qed

lemma euclidean_nonneg: "0 \<le> euclidean a b"
  by (simp add: euclidean_def Let_def)

lemma keyDistance_nonneg: "0 \<le> keyDistance a b"
  by (simp add: keyDistance_def euclidean_nonneg)

lemma naive_Cons:
  "naiveKeysWithinRadius (k # ks) c r ex =
     (if Some (k_code k) \<noteq> ex \<and> euclidean c (getKeyCenter k) \<le> r
      then (k_code k, euclidean c (getKeyCenter k)) # naiveKeysWithinRadius ks c r ex
      else naiveKeysWithinRadius ks c r ex)"
  by (simp add: naiveKeysWithinRadius_def)

text \<open>Past the right edge of the window no key is within the radius.\<close>

lemma naive_all_right:
  "\<forall>k\<in>set ks. p_x c + r < p_x (getKeyCenter k) \<Longrightarrow> naiveKeysWithinRadius ks c r ex = []"
proof (induction ks)
  case Nil
  show ?case by (simp add: naiveKeysWithinRadius_def)
next
  case (Cons k ks)
  have "r < \<bar>p_x c - p_x (getKeyCenter k)\<bar>" using Cons.prems by auto
  then have "r < euclidean c (getKeyCenter k)"
    using euclidean_ge_dx [of c "getKeyCenter k"] by linarith
  then show ?case using Cons by (simp add: naive_Cons)
qed

lemma sweep_naive:
  "sorted (map (\<lambda>k. p_x (getKeyCenter k)) ks)
     \<Longrightarrow> sweepKeys c r ex ks = naiveKeysWithinRadius ks c r ex"
proof (induction ks)
  case Nil
  show ?case by (simp add: naiveKeysWithinRadius_def)
next
  case (Cons k ks)
  let ?kc = "getKeyCenter k"
  have IH: "sweepKeys c r ex ks = naiveKeysWithinRadius ks c r ex"
    using Cons by simp
  have dx: "\<bar>p_x c - p_x ?kc\<bar> \<le> euclidean c ?kc" by (rule euclidean_ge_dx)
  have dy: "\<bar>p_y c - p_y ?kc\<bar> \<le> euclidean c ?kc" by (rule euclidean_ge_dy)
  show ?case
  proof (cases "p_x ?kc > p_x c + r \<and> \<not> p_x ?kc < p_x c - r")
    case True
    have "\<forall>k'\<in>set (k # ks). p_x c + r < p_x (getKeyCenter k')"
      using True Cons.prems by fastforce
    then have "naiveKeysWithinRadius (k # ks) c r ex = []" by (rule naive_all_right)
    then show ?thesis using True by (simp add: Let_def)
  next
    case False
    then show ?thesis using IH dx dy
      by (auto simp add: Let_def naive_Cons)
  qed
qed

text \<open>
  C8. The sweep over the x-sorted keys returns the list the naive scan returns on the
  sorted keys, and so the set of results the naive scan returns on the keys in any order.
\<close>

theorem sweep_equals_naive_scan:
  "findKeysWithinRadius (mkOptimizer allKeys) center maxDistance excludeCode
     = naiveKeysWithinRadius (sortKeysByX allKeys) center maxDistance excludeCode
   \<and> set (findKeysWithinRadius (mkOptimizer allKeys) center maxDistance excludeCode)
     = set (naiveKeysWithinRadius allKeys center maxDistance excludeCode)"
proof -
  have s: "sorted (map (\<lambda>k. p_x (getKeyCenter k)) (sortKeysByX allKeys))"
    by (simp add: sortKeysByX_def)
  have e: "findKeysWithinRadius (mkOptimizer allKeys) center maxDistance excludeCode
             = naiveKeysWithinRadius (sortKeysByX allKeys) center maxDistance excludeCode"
    using sweep_naive [OF s] by (simp add: findKeysWithinRadius_def mkOptimizer_def)
  have "set (naiveKeysWithinRadius (sortKeysByX allKeys) center maxDistance excludeCode)
          = set (naiveKeysWithinRadius allKeys center maxDistance excludeCode)"
    by (simp add: naiveKeysWithinRadius_def sortKeysByX_def)
  with e show ?thesis by simp
qed

theorem sweep_equals_naive_scan_witness:
  "set (naiveKeysWithinRadius rowKeys \<lparr>p_x = 21, p_y = 10\<rparr> 5 (Some ''KeyF''))
     = {(''KeyD'', 4), (''KeyG'', 4)}"
proof -
  have sweep: "findKeysWithinRadius (mkOptimizer rowKeys) \<lparr>p_x = 21, p_y = 10\<rparr> 5 (Some ''KeyF'')
          = [(''KeyD'', 4), (''KeyG'', 4)]"
    by (simp add: findKeysWithinRadius_def mkOptimizer_def sortKeysByX_def rowKeys_def
          mkKey_def getKeyCenter_def DEFAULT_KEY_HEIGHT_def euclidean_def)
  have "set (findKeysWithinRadius (mkOptimizer rowKeys) \<lparr>p_x = 21, p_y = 10\<rparr> 5 (Some ''KeyF''))
          = set (naiveKeysWithinRadius rowKeys \<lparr>p_x = 21, p_y = 10\<rparr> 5 (Some ''KeyF''))"
    using sweep_equals_naive_scan [of rowKeys "\<lparr>p_x = 21, p_y = 10\<rparr>" 5 "Some ''KeyF''"]
    by (rule conjunct2)
  then have "set (naiveKeysWithinRadius rowKeys \<lparr>p_x = 21, p_y = 10\<rparr> 5 (Some ''KeyF''))
               = set [(''KeyD'', 4 :: real), (''KeyG'', 4)]"
    unfolding sweep by (rule sym)
  also have "\<dots> = {(''KeyD'', 4), (''KeyG'', 4)}" by simp
  finally show ?thesis .
qed

section \<open>The key scorer\<close>

lemma getDistance_sentinel_iff:
  "getDistance opt a b = - 1 \<longleftrightarrow> keyMap opt a = None \<or> keyMap opt b = None"
proof (cases "keyMap opt a")
  case None
  then show ?thesis by (simp add: getDistance_def)
next
  case (Some ka)
  show ?thesis
  proof (cases "keyMap opt b")
    case None
    then show ?thesis using Some by (simp add: getDistance_def)
  next
    case (Some kb)
    have "0 \<le> keyDistance ka kb" by (rule keyDistance_nonneg)
    then have "keyDistance ka kb \<noteq> - 1" by linarith
    then show ?thesis using \<open>keyMap opt a = Some ka\<close> Some by (simp add: getDistance_def)
  qed
qed

lemma genuine_mono: "genuine opt k fc r \<Longrightarrow> genuine opt k (e # fc) r"
  by (auto simp add: genuine_def)

lemma exclusiveSearch_genuine:
  "exclusiveSearch opt k fc = Some r \<Longrightarrow> genuine opt k fc r"
proof (induction fc)
  case Nil
  then show ?case by simp
next
  case (Cons e fc)
  obtain f c where e: "e = (f, c)" by (cases e)
  show ?case
    using Cons.prems Cons.IH genuine_mono [of opt k fc r e]
    unfolding e
    by (auto simp add: Let_def getDistance_sentinel_iff genuine_def split: if_splits)
qed

lemma normalSearch_genuine:
  "normalSearch opt k fc bst = Some r \<Longrightarrow> (\<forall>b. bst = Some b \<longrightarrow> genuine opt k all b)
     \<Longrightarrow> set fc \<subseteq> set all \<Longrightarrow> genuine opt k all r"
proof (induction fc arbitrary: bst)
  case Nil
  then show ?case by simp
next
  case (Cons e fc)
  obtain f c where e: "e = (f, c)" by (cases e)
  have mem: "(f, c) \<in> set all" and sub: "set fc \<subseteq> set all" using Cons.prems(3) e by auto
  let ?new = "\<lparr>cl_finger = f, cl_originKey = restingKey c,
                cl_distance = getDistance opt k (restingKey c) + penaltyOf c k\<rparr>"
  have gnew: "k \<noteq> restingKey c \<Longrightarrow> getDistance opt k (restingKey c) \<noteq> - 1
                \<Longrightarrow> genuine opt k all ?new"
    using mem by (auto simp add: genuine_def getDistance_sentinel_iff)
  have grest: "k = restingKey c \<Longrightarrow>
      genuine opt k all \<lparr>cl_finger = f, cl_originKey = restingKey c, cl_distance = penaltyOf c k\<rparr>"
    using mem by (auto simp add: genuine_def)
  show ?case
    using Cons.prems(1,2) Cons.IH [OF _ _ sub] gnew grest
    unfolding e
    by (auto simp add: Let_def split: if_splits option.splits)
qed

lemma findClosest_genuine:
  "findClosestRestingFinger opt k fc = Some r \<Longrightarrow> genuine opt k fc r"
  using exclusiveSearch_genuine [of opt k fc r] normalSearch_genuine [of opt k fc None r fc]
  by (auto simp add: findClosestRestingFinger_def split: option.splits)

text \<open>
  C9. \<open>getDistance\<close> returns the sentinel \<open>-1\<close> exactly when one of the two ids is not in
  the key map; when both are, it returns their distance, which is not negative and so is
  never the sentinel; and whatever the scorer returns comes from a finger whose lookup did
  not give the sentinel.
\<close>

theorem distance_sentinel:
  "(getDistance opt key1Id key2Id = - 1
      \<longleftrightarrow> keyMap opt key1Id = None \<or> keyMap opt key2Id = None)
   \<and> (\<forall>key1 key2. keyMap opt key1Id = Some key1 \<longrightarrow> keyMap opt key2Id = Some key2 \<longrightarrow>
         getDistance opt key1Id key2Id = keyDistance key1 key2 \<and> 0 \<le> keyDistance key1 key2)
   \<and> (\<forall>r. findClosestRestingFinger opt keyCode fingerConfig = Some r \<longrightarrow>
         genuine opt keyCode fingerConfig r)"
proof (intro conjI allI impI)
  show "getDistance opt key1Id key2Id = - 1
          \<longleftrightarrow> keyMap opt key1Id = None \<or> keyMap opt key2Id = None"
    by (rule getDistance_sentinel_iff)
next
  fix key1 key2
  assume "keyMap opt key1Id = Some key1" and "keyMap opt key2Id = Some key2"
  then show "getDistance opt key1Id key2Id = keyDistance key1 key2"
    by (simp add: getDistance_def)
next
  fix key1 key2
  show "0 \<le> keyDistance key1 key2" by (rule keyDistance_nonneg)
next
  fix r
  assume "findClosestRestingFinger opt keyCode fingerConfig = Some r"
  then show "genuine opt keyCode fingerConfig r" by (rule findClosest_genuine)
qed

lemmas optimizer_eval =
  newOptimizer_def mkOptimizer_def buildKeyMap_def ANSI_LAYOUT_def MOUSE_LAYOUT_def mkKey_def
  getDistance_def keyDistance_def euclidean_def getKeyCenter_def DEFAULT_KEY_HEIGHT_def

lemmas scorer_eval =
  findClosestRestingFinger_def includesKey_def hasExclusiveKeys_def penaltyOf_def
  mkFinger_def sideButtonThumb_def Let_def

theorem distance_sentinel_witness:
  "getDistance newOptimizer ''KeyF'' ''KeyG'' = 4
   \<and> getDistance newOptimizer ''KeyF'' ''F13'' = - 1
   \<and> genuine newOptimizer ''KeyG'' [(RightIndex, mkFinger ''KeyF'' 12)]
        \<lparr>cl_finger = RightIndex, cl_originKey = ''KeyF'', cl_distance = 4\<rparr>"
proof -
  have f: "keyMap newOptimizer ''KeyF'' = Some (mkKey ''KeyF'' 19 8 4)"
    by (simp add: optimizer_eval)
  have g: "keyMap newOptimizer ''KeyG'' = Some (mkKey ''KeyG'' 23 8 4)"
    by (simp add: optimizer_eval)
  have n: "keyMap newOptimizer ''F13'' = None"
    by (simp add: optimizer_eval)
  have d: "keyDistance (mkKey ''KeyF'' 19 8 4) (mkKey ''KeyG'' 23 8 4) = 4"
    by (simp add: optimizer_eval)
  have d': "keyDistance (mkKey ''KeyG'' 23 8 4) (mkKey ''KeyF'' 19 8 4) = 4"
    by (simp add: optimizer_eval)
  have c: "findClosestRestingFinger newOptimizer ''KeyG'' [(RightIndex, mkFinger ''KeyF'' 12)]
             = Some \<lparr>cl_finger = RightIndex, cl_originKey = ''KeyF'', cl_distance = 4\<rparr>"
    using f g d' by (simp add: scorer_eval getDistance_def)
  show ?thesis
    using distance_sentinel [of newOptimizer "''KeyF''" "''KeyG''" "''KeyG''"
            "[(RightIndex, mkFinger ''KeyF'' 12)]"]
          distance_sentinel [of newOptimizer "''KeyF''" "''F13''" "''KeyG''"
            "[(RightIndex, mkFinger ''KeyF'' 12)]"]
          f g n d c
    by simp
qed

text \<open>
  The first finger whose exclusive list holds the key and whose lookup succeeds ends the
  first loop.
\<close>

lemma exclusiveSearch_first:
  assumes "\<forall>(f', c')\<in>set pre. includesKey (exclusiveKeys c') k \<longrightarrow>
             k \<noteq> restingKey c' \<and> (keyMap opt k = None \<or> keyMap opt (restingKey c') = None)"
    and "includesKey (exclusiveKeys cfg) k"
    and "k = restingKey cfg \<or> (keyMap opt k \<noteq> None \<and> keyMap opt (restingKey cfg) \<noteq> None)"
  shows "exclusiveSearch opt k (pre @ (f, cfg) # post) =
           Some \<lparr>cl_finger = f, cl_originKey = restingKey cfg,
                 cl_distance = penaltyOf cfg k
                   + (if k = restingKey cfg then 0 else getDistance opt k (restingKey cfg))\<rparr>"
  using assms(1)
proof (induction pre)
  case Nil
  show ?case using assms(2,3) by (auto simp add: Let_def getDistance_sentinel_iff)
next
  case (Cons e pre)
  obtain f' c' where e: "e = (f', c')" by (cases e)
  show ?case using Cons unfolding e
    by (auto simp add: Let_def getDistance_sentinel_iff)
qed

text \<open>
  C7, as stated, fails: the thumb owns \<open>Mouse4\<close> exclusively, but its resting key is not
  a key of the keyboard map, the distance lookup gives the sentinel, the thumb is passed
  over, and the normal search hands the key to the index finger.
\<close>

theorem exclusive_key_counterexample:
  "includesKey (exclusiveKeys (sideButtonThumb ''Mouse6'')) ''Mouse4''
   \<and> findClosestRestingFinger newOptimizer ''Mouse4''
        [(LeftThumb, sideButtonThumb ''Mouse6''), (RightIndex, mkFinger ''Mouse5'' 12)]
      = Some \<lparr>cl_finger = RightIndex, cl_originKey = ''Mouse5'', cl_distance = 4\<rparr>"
proof -
  have a: "keyMap newOptimizer ''Mouse4'' = Some (mkKey ''Mouse4'' 66 8 4)"
    by (simp add: optimizer_eval)
  have b: "keyMap newOptimizer ''Mouse5'' = Some (mkKey ''Mouse5'' 66 12 4)"
    by (simp add: optimizer_eval)
  have n: "keyMap newOptimizer ''Mouse6'' = None"
    by (simp add: optimizer_eval)
  have d: "keyDistance (mkKey ''Mouse4'' 66 8 4) (mkKey ''Mouse5'' 66 12 4) = 4"
    by (simp add: optimizer_eval)
  show ?thesis
    using a b n d by (simp add: scorer_eval getDistance_def)
qed

text \<open>
  C7, amended. Take the first finger, in the order of the configuration, whose exclusive
  list holds the key and for which the key is its resting key or both keys are in the key
  map (every earlier finger with the key in its list fails the lookup). The scorer returns
  that finger, with its resting key as origin and the cost: penalty override (0 when there
  is none) plus 0 for the resting key, else the distance. No other finger is looked at.
\<close>

theorem exclusive_key_short_circuit:
  assumes "\<forall>(f', c')\<in>set pre. includesKey (exclusiveKeys c') keyCode \<longrightarrow>
             keyCode \<noteq> restingKey c'
             \<and> (keyMap opt keyCode = None \<or> keyMap opt (restingKey c') = None)"
    and "includesKey (exclusiveKeys config) keyCode"
    and "keyCode = restingKey config
         \<or> (keyMap opt keyCode \<noteq> None \<and> keyMap opt (restingKey config) \<noteq> None)"
  shows "findClosestRestingFinger opt keyCode (pre @ (finger, config) # post) =
           Some \<lparr>cl_finger = finger, cl_originKey = restingKey config,
                 cl_distance = penaltyOf config keyCode
                   + (if keyCode = restingKey config then 0
                      else getDistance opt keyCode (restingKey config))\<rparr>"
  using exclusiveSearch_first [OF assms, of finger post]
  by (simp add: findClosestRestingFinger_def)

theorem exclusive_key_short_circuit_witness:
  "findClosestRestingFinger newOptimizer ''Mouse4''
     [(RightIndex, mkFinger ''Mouse5'' 12), (LeftThumb, sideButtonThumb ''Mouse5'')]
   = Some \<lparr>cl_finger = LeftThumb, cl_originKey = ''Mouse5'', cl_distance = 4\<rparr>"
proof -
  have a: "keyMap newOptimizer ''Mouse4'' = Some (mkKey ''Mouse4'' 66 8 4)"
    by (simp add: optimizer_eval)
  have b: "keyMap newOptimizer ''Mouse5'' = Some (mkKey ''Mouse5'' 66 12 4)"
    by (simp add: optimizer_eval)
  have d: "keyDistance (mkKey ''Mouse4'' 66 8 4) (mkKey ''Mouse5'' 66 12 4) = 4"
    by (simp add: optimizer_eval)
  have h1: "\<forall>(f', c')\<in>set [(RightIndex, mkFinger ''Mouse5'' 12)].
              includesKey (exclusiveKeys c') ''Mouse4'' \<longrightarrow>
                ''Mouse4'' \<noteq> restingKey c'
                \<and> (keyMap newOptimizer ''Mouse4'' = None
                    \<or> keyMap newOptimizer (restingKey c') = None)"
    by (simp add: scorer_eval)
  have h2: "includesKey (exclusiveKeys (sideButtonThumb ''Mouse5'')) ''Mouse4''"
    by (simp add: scorer_eval)
  have h3: "''Mouse4'' = restingKey (sideButtonThumb ''Mouse5'')
            \<or> (keyMap newOptimizer ''Mouse4'' \<noteq> None
                \<and> keyMap newOptimizer (restingKey (sideButtonThumb ''Mouse5'')) \<noteq> None)"
    using a b by (simp add: scorer_eval)
  show ?thesis
    using exclusive_key_short_circuit [OF h1 h2 h3, of LeftThumb "[]"] a b d
    by (simp add: scorer_eval getDistance_def)
qed

section \<open>The greedy allocator: one step\<close>

lemma scanKeys_result:
  "scanKeys a bk lks fl fc mks mfs afs blk sks bst m = Some r \<Longrightarrow>
     bst = Some r \<or> (r \<in> set sks \<and> sk_code r \<notin> bk \<and> sk_code r \<notin> lks \<and> sk_code r \<notin> mks)"
proof (induction sks arbitrary: bst m)
  case Nil
  then show ?case by simp
next
  case (Cons s sks)
  show ?case
    using Cons.prems Cons.IH [of bst m] Cons.IH [of "Some s"]
    by (auto simp add: Let_def split: if_splits option.splits)
qed

lemma allocateNonMovementAction_result:
  assumes "allocateNonMovementAction a sks bk lks fl fc mks mfs afs afm acts = (Some r, fl')"
  shows "b_action (r_binding r) = name a \<and> b_key (r_binding r) \<notin> bk
         \<and> b_key (r_binding r) \<notin> lks \<and> b_key (r_binding r) \<notin> mks"
  using assms scanKeys_result [of a bk lks fl fc mks mfs afs _ sks None None]
  by (auto simp add: allocateNonMovementAction_def Let_def split: option.splits)

lemma allocateMovementAction_result:
  assumes "allocateMovementAction a sks bk mc fl = (Some r, fl')"
  shows "b_action (r_binding r) = name a \<and> b_key (r_binding r) \<notin> bk
         \<and> (\<exists>ax. findAxisForAction a mc = Some ax
                \<and> (b_key (r_binding r) = positiveKey ax \<or> b_key (r_binding r) = negativeKey ax))"
  using assms
  by (auto simp add: allocateMovementAction_def find_Some_iff split: option.splits)

lemma findAxis_movementKey:
  "findAxisForAction a mc = Some ax \<Longrightarrow>
     positiveKey ax \<in> buildMovementKeySet mc \<and> negativeKey ax \<in> buildMovementKeySet mc"
  by (auto simp add: findAxisForAction_def buildMovementKeySet_def split: if_splits)

lemma lockedKeyOf_Some: "lockedKeyOf locks n = Some k \<longleftrightarrow> locks n = Some k \<and> k \<noteq> []"
  by (auto simp add: lockedKeyOf_def split: option.splits)

lemma allocateActionWithLoad_result:
  assumes "allocateActionWithLoad a sks bk locks (ran locks) fl fc mc (buildMovementKeySet mc)
             mfs afs afm acts = (Some r, fl')"
  shows "stepOrigin locks mc bk a (r_binding r)"
proof (cases "lockedKeyOf locks (name a)")
  case (Some k)
  then show ?thesis using assms
    by (auto simp add: allocateActionWithLoad_def stepOrigin_def Let_def)
next
  case None
  show ?thesis
  proof (cases "atype a = DIRECTIONAL")
    case True
    then have "allocateMovementAction a sks bk mc fl = (Some r, fl')"
      using assms None by (simp add: allocateActionWithLoad_def)
    from allocateMovementAction_result [OF this] show ?thesis
      using None True by (auto simp add: stepOrigin_def)
  next
    case False
    then have "allocateNonMovementAction a sks bk (ran locks) fl fc (buildMovementKeySet mc)
                 mfs afs afm acts = (Some r, fl')"
      using assms None by (simp add: allocateActionWithLoad_def)
    from allocateNonMovementAction_result [OF this] show ?thesis
      using None False by (auto simp add: stepOrigin_def)
  qed
qed


section \<open>The greedy allocator: one pass\<close>

lemma passLoop_step:
  "passLoop sks fc mc af locks acts (a # rest) st =
     passLoop sks fc mc af locks acts rest
       (case allocateActionWithLoad a sks (boundKeys st) locks (ran locks) (fingerLoad st) fc mc
              (buildMovementKeySet mc) (buildExclusiveMovementFingers mc) af
              (actionFingerMap st) acts of
          (None, load) \<Rightarrow> st\<lparr>fingerLoad := load\<rparr>
        | (Some result, load) \<Rightarrow>
            \<lparr>bindings = bindings st @ [r_binding result],
             boundKeys = insert (b_key (r_binding result)) (boundKeys st),
             fingerLoad = load,
             actionFingerMap = (actionFingerMap st)(name a \<mapsto> r_fingers result)\<rparr>)"
  by (simp split: prod.splits option.splits)

text \<open>Every binding of a pass comes from one step of the loop.\<close>

lemma passLoop_origin:
  assumes "\<forall>b\<in>set (bindings st). \<exists>a\<in>set acts. \<exists>bk. stepOrigin locks mc bk a b"
    and "set todo \<subseteq> set acts"
  shows "\<forall>b\<in>set (bindings (passLoop sks fc mc af locks acts todo st)).
           \<exists>a\<in>set acts. \<exists>bk. stepOrigin locks mc bk a b"
  using assms
proof (induction todo arbitrary: st)
  case Nil
  then show ?case by simp
next
  case (Cons a rest)
  obtain res load where step:
    "allocateActionWithLoad a sks (boundKeys st) locks (ran locks) (fingerLoad st) fc mc
       (buildMovementKeySet mc) (buildExclusiveMovementFingers mc) af (actionFingerMap st) acts
     = (res, load)"
    by (cases "allocateActionWithLoad a sks (boundKeys st) locks (ran locks) (fingerLoad st) fc mc
       (buildMovementKeySet mc) (buildExclusiveMovementFingers mc) af (actionFingerMap st) acts")
  have rest: "set rest \<subseteq> set acts" and a: "a \<in> set acts" using Cons.prems(2) by auto
  show ?case
  proof (cases res)
    case None
    show ?thesis
      unfolding passLoop_step step None
      by (rule Cons.IH) (use Cons.prems(1) rest in simp_all)
  next
    case (Some r)
    have "stepOrigin locks mc (boundKeys st) a (r_binding r)"
      using allocateActionWithLoad_result step Some by blast
    then show ?thesis
      unfolding passLoop_step step Some
      by (intro Cons.IH) (use Cons.prems(1) rest a in auto)
  qed
qed

lemma allocatePass_origin:
  "b \<in> set (bindings (allocatePass acts sks fc mc af locks)) \<Longrightarrow>
     \<exists>a\<in>set acts. \<exists>bk. stepOrigin locks mc bk a b"
  using passLoop_origin [of "\<lparr>bindings = [], boundKeys = {}, fingerLoad = Map.empty,
      actionFingerMap = Map.empty\<rparr>" acts locks mc "sortActionsByFrequency acts" sks fc af]
  by (simp add: allocatePass_def sortActionsByFrequency_def)




text \<open>
  The invariant of the loop: the bound keys are the keys of the bindings, they are
  pairwise different, and no action still to come is locked to one of them.
\<close>

lemma passLoop_distinct:
  assumes "distinct (map b_key (bindings st))"
    and "boundKeys st = set (map b_key (bindings st))"
    and "\<forall>k\<in>boundKeys st. \<forall>a\<in>set todo. lockedKeyOf locks (name a) \<noteq> Some k"
    and "distinct (map (\<lambda>a. lockedKeyOf locks (name a))
           (filter (\<lambda>a. lockedKeyOf locks (name a) \<noteq> None) todo))"
    and "\<forall>a\<in>set todo. \<forall>k. lockedKeyOf locks (name a) = Some k
           \<longrightarrow> k \<notin> buildMovementKeySet mc"
  shows "distinct (map b_key (bindings (passLoop sks fc mc af locks acts todo st)))"
  using assms
proof (induction todo arbitrary: st)
  case Nil
  then show ?case by simp
next
  case (Cons a rest)
  obtain res load where step:
    "allocateActionWithLoad a sks (boundKeys st) locks (ran locks) (fingerLoad st) fc mc
       (buildMovementKeySet mc) (buildExclusiveMovementFingers mc) af (actionFingerMap st) acts
     = (res, load)"
    by (cases "allocateActionWithLoad a sks (boundKeys st) locks (ran locks) (fingerLoad st) fc mc
       (buildMovementKeySet mc) (buildExclusiveMovementFingers mc) af (actionFingerMap st) acts")
  have d_rest: "distinct (map (\<lambda>a. lockedKeyOf locks (name a))
                  (filter (\<lambda>a. lockedKeyOf locks (name a) \<noteq> None) rest))"
    using Cons.prems(4) by (simp split: if_splits)
  have m_rest: "\<forall>a\<in>set rest. \<forall>k. lockedKeyOf locks (name a) = Some k
                  \<longrightarrow> k \<notin> buildMovementKeySet mc"
    using Cons.prems(5) by simp
  show ?case
  proof (cases res)
    case None
    show ?thesis
      unfolding passLoop_step step None
      by (rule Cons.IH) (use Cons.prems d_rest m_rest in simp_all)
  next
    case (Some r)
    let ?k = "b_key (r_binding r)"
    have so: "stepOrigin locks mc (boundKeys st) a (r_binding r)"
      using allocateActionWithLoad_result step Some by blast
    have fresh: "?k \<notin> boundKeys st"
      using so Cons.prems(3) by (auto simp add: stepOrigin_def)
    have later: "\<forall>a'\<in>set rest. lockedKeyOf locks (name a') \<noteq> Some ?k"
    proof
      fix a' assume a': "a' \<in> set rest"
      show "lockedKeyOf locks (name a') \<noteq> Some ?k"
      proof
        assume l: "lockedKeyOf locks (name a') = Some ?k"
        then have inran: "?k \<in> ran locks" by (auto simp add: lockedKeyOf_Some ran_def)
        have notmov: "?k \<notin> buildMovementKeySet mc" using m_rest a' l by blast
        from so have "lockedKeyOf locks (name a) = Some ?k"
          using inran notmov findAxis_movementKey by (auto simp add: stepOrigin_def)
        then show False using Cons.prems(4) a' l by (auto simp add: image_iff)
      qed
    qed
    show ?thesis
      unfolding passLoop_step step Some
      by (rule Cons.IH) (use Cons.prems fresh later d_rest m_rest in auto)
  qed
qed

lemma distinct_map_filter_perm:
  assumes "mset xs = mset ys"
  shows "distinct (map f (filter P xs)) = distinct (map f (filter P ys))"
proof -
  have "mset (map f (filter P xs)) = mset (map f (filter P ys))"
    using assms by (metis mset_filter mset_map)
  then show ?thesis by (metis distinct_count_atmost_1 set_mset_mset count_mset)
qed

lemmas fixture_eval =
  DEFAULT_FINGER_CONFIG_def DEFAULT_MOVEMENT_CONFIG_def DEFAULT_AVAILABLE_FINGERS_def
  mkFinger_def mkScored_def mkAction_def lockTestKeys_def lockTestActions_def
  moveForward_def axisTestKeys_def

lemmas alloc_eval =
  allocate_def allocatePass_def sortActionsByFrequency_def allocateActionWithLoad_def
  lockedKeyOf_def allocateNonMovementAction_def allocateMovementAction_def
  getBlockedFingersForConcurrency_def buildMovementKeySet_def
  buildExclusiveMovementFingers_def addFingerLoad_def unassignedConcurrent_def fingersOf_def
  includesKey_def findAxisForAction_def toLowerCase_def Let_def

text \<open>
  C1, as stated, fails: a lock is honoured without a look at the keys already bound, so
  two actions locked to one key are both bound to it in the same pass.
\<close>

theorem pass_keys_counterexample:
  "map b_key (bindings (allocatePass lockTestActions lockTestKeys DEFAULT_FINGER_CONFIG
       DEFAULT_MOVEMENT_CONFIG DEFAULT_AVAILABLE_FINGERS
       [''Jump'' \<mapsto> ''KeyG'', ''Shoot'' \<mapsto> ''KeyG''])) = [''KeyG'', ''KeyG'']
   \<and> \<not> distinct (map b_key (bindings (allocatePass lockTestActions lockTestKeys
       DEFAULT_FINGER_CONFIG DEFAULT_MOVEMENT_CONFIG DEFAULT_AVAILABLE_FINGERS
       [''Jump'' \<mapsto> ''KeyG'', ''Shoot'' \<mapsto> ''KeyG''])))"
  by (simp add: fixture_eval alloc_eval)

text \<open>
  C1, amended. When the locked actions of the list are pinned to pairwise different keys
  and no locked action is pinned to a movement-axis key, no two bindings of a pass share a
  key.
\<close>

theorem pass_keys_distinct:
  assumes "distinct (map (\<lambda>a. lockedKeyOf lockedBinds (name a))
             (filter (\<lambda>a. lockedKeyOf lockedBinds (name a) \<noteq> None) actions))"
    and "\<forall>a\<in>set actions. \<forall>k. lockedKeyOf lockedBinds (name a) = Some k
           \<longrightarrow> k \<notin> buildMovementKeySet movementConfig"
  shows "distinct (map b_key (bindings (allocatePass actions scoredKeys fingerConfig
           movementConfig availableFingers lockedBinds)))"
proof -
  have "mset (sortActionsByFrequency actions) = mset actions"
    by (simp add: sortActionsByFrequency_def)
  from distinct_map_filter_perm [OF this]
  have "distinct (map (\<lambda>a. lockedKeyOf lockedBinds (name a))
          (filter (\<lambda>a. lockedKeyOf lockedBinds (name a) \<noteq> None)
             (sortActionsByFrequency actions)))"
    using assms(1) by blast
  then show ?thesis
    unfolding allocatePass_def
    by (intro passLoop_distinct) (use assms(2) in \<open>simp_all add: sortActionsByFrequency_def\<close>)
qed

theorem pass_keys_distinct_witness:
  "distinct (map b_key (bindings (allocatePass lockTestActions lockTestKeys
     DEFAULT_FINGER_CONFIG DEFAULT_MOVEMENT_CONFIG DEFAULT_AVAILABLE_FINGERS
     [''Jump'' \<mapsto> ''KeyG''])))
   \<and> bindings (allocatePass lockTestActions lockTestKeys
     DEFAULT_FINGER_CONFIG DEFAULT_MOVEMENT_CONFIG DEFAULT_AVAILABLE_FINGERS
     [''Jump'' \<mapsto> ''KeyG''])
     = [\<lparr>b_action = ''Jump'', b_key = ''KeyG''\<rparr>, \<lparr>b_action = ''Shoot'', b_key = ''KeyF''\<rparr>]"
proof
  show "distinct (map b_key (bindings (allocatePass lockTestActions lockTestKeys
     DEFAULT_FINGER_CONFIG DEFAULT_MOVEMENT_CONFIG DEFAULT_AVAILABLE_FINGERS
     [''Jump'' \<mapsto> ''KeyG''])))"
  proof (rule pass_keys_distinct)
    show "distinct (map (\<lambda>a. lockedKeyOf [''Jump'' \<mapsto> ''KeyG''] (name a))
             (filter (\<lambda>a. lockedKeyOf [''Jump'' \<mapsto> ''KeyG''] (name a) \<noteq> None)
                lockTestActions))"
      by (simp add: fixture_eval lockedKeyOf_def)
    show "\<forall>a\<in>set lockTestActions. \<forall>k. lockedKeyOf [''Jump'' \<mapsto> ''KeyG''] (name a) = Some k
           \<longrightarrow> k \<notin> buildMovementKeySet DEFAULT_MOVEMENT_CONFIG"
      by (simp add: fixture_eval lockedKeyOf_def buildMovementKeySet_def)
  qed
  show "bindings (allocatePass lockTestActions lockTestKeys
     DEFAULT_FINGER_CONFIG DEFAULT_MOVEMENT_CONFIG DEFAULT_AVAILABLE_FINGERS
     [''Jump'' \<mapsto> ''KeyG''])
     = [\<lparr>b_action = ''Jump'', b_key = ''KeyG''\<rparr>, \<lparr>b_action = ''Shoot'', b_key = ''KeyF''\<rparr>]"
    by (simp add: fixture_eval alloc_eval)
qed

section \<open>The greedy allocator: both passes\<close>

lemma addDisplacementLocks_other:
  "n \<notin> name ` set todo \<Longrightarrow> addDisplacementLocks fp acts todo locks n = locks n"
  by (induction todo arbitrary: locks) (auto split: option.splits)

lemma addDisplacementLocks_cases:
  "addDisplacementLocks fp acts todo locks n = Some k
     \<Longrightarrow> locks n = Some k \<or> n \<in> name ` set todo"
  using addDisplacementLocks_other by fastforce

text \<open>
  The result of \<open>allocate\<close> is the result of one pass, under the given locks or under
  the locks the repair has added to; the repair pins only actions with a concurrency list
  that the first pass left out, and keeps the lock of every action the first pass bound.
\<close>

lemma allocate_cases:
  "\<exists>locks'. allocate acts sks fc mc af locks = bindings (allocatePass acts sks fc mc af locks')
     \<and> (\<forall>n k. locks' n = Some k \<longrightarrow> locks n = Some k
            \<or> (\<exists>a\<in>set acts. name a = n \<and> hasConcurrent a))
     \<and> (\<forall>n. n \<in> b_action ` set (bindings (allocatePass acts sks fc mc af locks))
            \<longrightarrow> locks' n = locks n)"
proof (cases "unassignedConcurrent (allocatePass acts sks fc mc af locks) acts = []")
  case True
  then show ?thesis by (intro exI [of _ locks]) (simp add: allocate_def)
next
  case False
  let ?fp = "allocatePass acts sks fc mc af locks"
  let ?uc = "unassignedConcurrent ?fp acts"
  let ?l = "addDisplacementLocks ?fp acts ?uc locks"
  have uc: "\<And>n. n \<in> name ` set ?uc \<Longrightarrow>
      (\<exists>a\<in>set acts. name a = n \<and> hasConcurrent a \<and> n \<notin> b_action ` set (bindings ?fp))"
    by (auto simp add: unassignedConcurrent_def hasConcurrent_def)
  have 1: "allocate acts sks fc mc af locks = bindings (allocatePass acts sks fc mc af ?l)"
    using False by (simp add: allocate_def Let_def)
  have 2: "\<forall>n k. ?l n = Some k \<longrightarrow> locks n = Some k
            \<or> (\<exists>a\<in>set acts. name a = n \<and> hasConcurrent a)"
  proof (intro allI impI)
    fix n k assume "?l n = Some k"
    then have "locks n = Some k \<or> n \<in> name ` set ?uc" by (rule addDisplacementLocks_cases)
    then show "locks n = Some k \<or> (\<exists>a\<in>set acts. name a = n \<and> hasConcurrent a)"
      using uc [of n] by blast
  qed
  have 3: "\<forall>n. n \<in> b_action ` set (bindings ?fp) \<longrightarrow> ?l n = locks n"
  proof (intro allI impI)
    fix n assume "n \<in> b_action ` set (bindings ?fp)"
    then have "n \<notin> name ` set ?uc" using uc by blast
    then show "?l n = locks n" by (rule addDisplacementLocks_other)
  qed
  show ?thesis using 1 2 3 by blast
qed





lemmas repair_eval =
  fixture_eval repairActions_def repairActionsWithSpare_def repairKeys_def alloc_eval
  findDisplacementVictim_def frequencyOf_def actionMapOf_def displacedKeys_def



text \<open>
  One of the inputs the amended statement leaves out. The caller locks \<open>A\<close> alone to
  \<open>KeyF\<close>; the first pass leaves \<open>C\<close> out; the only binding on a finger that is free for
  \<open>C\<close> is the locked one, the repair takes it as its victim and pins \<open>C\<close> to \<open>KeyF\<close>; in
  the second pass the lock of \<open>A\<close> and the new lock of \<open>C\<close> are both honoured.
\<close>

lemma repair_pins_locked_key:
  "allocate repairActions lockTestKeys DEFAULT_FINGER_CONFIG DEFAULT_MOVEMENT_CONFIG
     DEFAULT_AVAILABLE_FINGERS [''A'' \<mapsto> ''KeyF'']
   = [\<lparr>b_action = ''X'', b_key = ''KeyG''\<rparr>, \<lparr>b_action = ''A'', b_key = ''KeyF''\<rparr>,
      \<lparr>b_action = ''C'', b_key = ''KeyF''\<rparr>]"
  by (simp add: repair_eval)

text \<open>
  C3, as stated, fails: the lock comes first, so a \<open>DIRECTIONAL\<close> action of the vertical
  axis that is locked to \<open>KeyX\<close> is bound to \<open>KeyX\<close>, which is not a key of its axis.
\<close>

theorem directional_counterexample:
  "atype moveForward = DIRECTIONAL
   \<and> findAxisForAction moveForward DEFAULT_MOVEMENT_CONFIG
       = Some (verticalAxis DEFAULT_MOVEMENT_CONFIG)
   \<and> allocate [moveForward] axisTestKeys DEFAULT_FINGER_CONFIG DEFAULT_MOVEMENT_CONFIG
        DEFAULT_AVAILABLE_FINGERS [''Move Forward'' \<mapsto> ''KeyX'']
      = [\<lparr>b_action = ''Move Forward'', b_key = ''KeyX''\<rparr>]
   \<and> ''KeyX'' \<noteq> positiveKey (verticalAxis DEFAULT_MOVEMENT_CONFIG)
   \<and> ''KeyX'' \<noteq> negativeKey (verticalAxis DEFAULT_MOVEMENT_CONFIG)"
  by (simp add: fixture_eval alloc_eval)

text \<open>
  C3, amended. In a pass, a binding whose action name belongs only to \<open>DIRECTIONAL\<close>
  actions and is not pinned by the lock map of the pass uses one of the two keys of the
  action's axis: the vertical axis when the lower-cased name contains forward or backward,
  else the horizontal axis when it contains left or right.
\<close>

theorem directional_on_axis:
  assumes "b \<in> set (bindings (allocatePass actions scoredKeys fingerConfig movementConfig
                      availableFingers lockedBinds))"
    and "\<forall>a\<in>set actions. name a = b_action b \<longrightarrow> atype a = DIRECTIONAL"
    and "lockedKeyOf lockedBinds (b_action b) = None"
  shows "\<exists>a\<in>set actions. \<exists>ax. name a = b_action b
           \<and> findAxisForAction a movementConfig = Some ax
           \<and> (b_key b = positiveKey ax \<or> b_key b = negativeKey ax)"
proof -
  obtain a bk where a: "a \<in> set actions" and so: "stepOrigin lockedBinds movementConfig bk a b"
    using allocatePass_origin [OF assms(1)] by blast
  have n: "name a = b_action b" using so by (simp add: stepOrigin_def)
  have "atype a = DIRECTIONAL" using assms(2) a n by blast
  then show ?thesis using so assms(3) a n
    by (auto simp add: stepOrigin_def)
qed

theorem directional_on_axis_witness:
  "bindings (allocatePass [moveForward] axisTestKeys DEFAULT_FINGER_CONFIG
      DEFAULT_MOVEMENT_CONFIG DEFAULT_AVAILABLE_FINGERS Map.empty)
     = [\<lparr>b_action = ''Move Forward'', b_key = ''KeyW''\<rparr>]
   \<and> (\<exists>ax. findAxisForAction moveForward DEFAULT_MOVEMENT_CONFIG = Some ax
         \<and> (''KeyW'' = positiveKey ax \<or> ''KeyW'' = negativeKey ax))"
proof -
  have e: "bindings (allocatePass [moveForward] axisTestKeys DEFAULT_FINGER_CONFIG
      DEFAULT_MOVEMENT_CONFIG DEFAULT_AVAILABLE_FINGERS Map.empty)
     = [\<lparr>b_action = ''Move Forward'', b_key = ''KeyW''\<rparr>]"
    by (simp add: fixture_eval alloc_eval)
  have h1: "\<lparr>b_action = ''Move Forward'', b_key = ''KeyW''\<rparr>
              \<in> set (bindings (allocatePass [moveForward] axisTestKeys DEFAULT_FINGER_CONFIG
                        DEFAULT_MOVEMENT_CONFIG DEFAULT_AVAILABLE_FINGERS Map.empty))"
    unfolding e by simp
  have h2: "\<forall>a\<in>set [moveForward].
              name a = b_action \<lparr>b_action = ''Move Forward'', b_key = ''KeyW''\<rparr>
                \<longrightarrow> atype a = DIRECTIONAL"
    by (simp add: fixture_eval)
  have h3: "lockedKeyOf Map.empty (b_action \<lparr>b_action = ''Move Forward'', b_key = ''KeyW''\<rparr>)
              = None"
    by (simp add: lockedKeyOf_def)
  show ?thesis
    using directional_on_axis [OF h1 h2 h3] e by simp
qed

section \<open>SeededRandom\<close>

lemma roundHalfEven_of_int: "roundHalfEven (of_int n) = n"
  by (simp add: roundHalfEven_def)

lemma floor_log2_bound:
  assumes "m \<noteq> 0" "\<bar>m\<bar> < 2 ^ 53"
  shows "\<lfloor>log 2 \<bar>real_of_int m\<bar>\<rfloor> \<le> 52"
proof -
  have "\<bar>real_of_int m\<bar> < 2 powr 53" using assms(2) by simp
  then have "log 2 \<bar>real_of_int m\<bar> < 53"
    using assms(1) by (simp add: log_less_iff)
  then show ?thesis by linarith
qed

text \<open>
  A number \<open>m * 2^e\<close> whose significand \<open>m\<close> is below \<open>2^53\<close> is a binary64 number:
  rounding returns it unchanged, so an operation with such a result is exact.
\<close>

lemma round53_exact:
  assumes "m \<noteq> 0" "\<bar>m\<bar> < 2 ^ 53"
  shows "round53 (real_of_int m * 2 powr real_of_int e) = real_of_int m * 2 powr real_of_int e"
proof -
  let ?v = "real_of_int m * 2 powr real_of_int e"
  have vnz: "?v \<noteq> 0" using assms(1) by simp
  have "\<bar>?v\<bar> = \<bar>real_of_int m\<bar> * 2 powr real_of_int e" by (simp add: abs_mult)
  then have "log 2 \<bar>?v\<bar> = log 2 \<bar>real_of_int m\<bar> + real_of_int e"
    using assms(1) by (simp add: log_mult)
  then have fl: "\<lfloor>log 2 \<bar>?v\<bar>\<rfloor> = \<lfloor>log 2 \<bar>real_of_int m\<bar>\<rfloor> + e" by simp
  define d where "d = 52 - \<lfloor>log 2 \<bar>real_of_int m\<bar>\<rfloor>"
  have dnn: "0 \<le> d" using floor_log2_bound [OF assms] by (simp add: d_def)
  let ?u = "2 powr (of_int \<lfloor>log 2 \<bar>?v\<bar>\<rfloor> - 52)"
  have u: "?u = 2 powr (real_of_int e - real_of_int d)" by (simp add: fl d_def algebra_simps)
  have "?v / ?u = real_of_int m * 2 powr real_of_int d"
    unfolding u by (simp add: powr_diff)
  also have "\<dots> = real_of_int (m * 2 ^ nat d)"
    using dnn by (simp add: powr_realpow [symmetric])
  finally have q: "?v / ?u = real_of_int (m * 2 ^ nat d)" .
  have "round53 ?v = of_int (roundHalfEven (?v / ?u)) * ?u"
    using vnz by (simp only: round53_def Let_def if_False)
  also have "\<dots> = (?v / ?u) * ?u" unfolding q roundHalfEven_of_int by simp
  also have "\<dots> = ?v" by simp
  finally show ?thesis .
qed

lemma round53_one: "round53 1 = 1"
  using round53_exact [of 1 0] by simp

text \<open>
  The seed \<open>-24027 / 2^31\<close>. The product with 1103515245 is \<open>-26514160791615 / 2^31\<close>
  and the sum with 12345 is \<open>-3475157055 / 2^31\<close>, about -1.618: both are binary64
  numbers, so no rounding takes place. The conversion to a 32-bit integer gives -1, the
  mask gives \<open>0x7fffffff\<close>, and the division by \<open>0x7fffffff\<close> gives 1.
\<close>

lemma next_at_failing_seed:
  "SeededRandom_next (- 24027 / 2 ^ 31) = (1, 2147483647)"
proof -
  have p: "(- 24027 / 2 ^ 31 :: real) * 1103515245
             = real_of_int (- 26514160791615) * 2 powr real_of_int (- 31)"
    by (simp add: powr_minus_divide)
  have r1: "round53 ((- 24027 / 2 ^ 31) * 1103515245)
              = real_of_int (- 26514160791615) * 2 powr real_of_int (- 31)"
    unfolding p by (rule round53_exact) simp_all
  have q: "real_of_int (- 26514160791615) * 2 powr real_of_int (- 31) + 12345
             = real_of_int (- 3475157055) * 2 powr real_of_int (- 31)"
    by (simp add: powr_minus_divide)
  have r2: "round53 (round53 ((- 24027 / 2 ^ 31) * 1103515245) + 12345)
              = real_of_int (- 3475157055) * 2 powr real_of_int (- 31)"
    unfolding r1 q by (rule round53_exact) simp_all
  have t: "truncToInt (real_of_int (- 3475157055) * 2 powr real_of_int (- 31)) = - 1"
    by (simp add: truncToInt_def powr_minus_divide)
  have w: "uint (and (word_of_int (- 1) :: 32 word) 0x7fffffff) = 2147483647"
    by simp
  show ?thesis
    unfolding SeededRandom_next_def Let_def r2 toInt32_def t w
    using round53_one by simp
qed

text \<open>
  C10. The code divides the masked state by \<open>0x7fffffff\<close>, the largest value the state
  can take, so \<open>next()\<close> can return 1: with the seed above it does, and \<open>pick\<close> then
  reads one place past the end of the array and returns \<open>undefined\<close>.
\<close>

theorem next_returns_one:
  "fst (SeededRandom_next (- 24027 / 2 ^ 31)) = 1
   \<and> fst (pick (- 24027 / 2 ^ 31) [''Jump'', ''Shoot'']) = None
   \<and> fst (fst (pickTwo (- 24027 / 2 ^ 31) [''Jump'', ''Shoot''])) = None"
proof (intro conjI)
  show "fst (SeededRandom_next (- 24027 / 2 ^ 31)) = 1"
    unfolding next_at_failing_seed by simp
  show "fst (pick (- 24027 / 2 ^ 31) [''Jump'', ''Shoot'']) = None"
  proof -
    have "round53 2 = 2" using round53_exact [of 2 0] by simp
    then show ?thesis
      unfolding pick_def next_at_failing_seed by (simp add: arrayGet_def)
  qed
  show "fst (fst (pickTwo (- 24027 / 2 ^ 31) [''Jump'', ''Shoot''])) = None"
  proof -
    have "round53 2 = 2" using round53_exact [of 2 0] by simp
    then show ?thesis
      unfolding pickTwo_def next_at_failing_seed
      by (simp add: arrayGet_def Let_def split: prod.splits)
  qed
qed

section \<open>Layouts as insertion-ordered maps\<close>


lemma mapSet_here: "k \<notin> fst ` set xs \<Longrightarrow> mapSet (xs @ (k, v) # ys) k v' = xs @ (k, v') # ys"
  by (induction xs) auto

lemma mapSet_fresh: "k \<notin> fst ` set xs \<Longrightarrow> mapSet xs k v = xs @ [(k, v)]"
  by (induction xs) auto

lemma map_fst_mapSet:
  "map fst (mapSet l k v) = (if k \<in> fst ` set l then map fst l else map fst l @ [k])"
proof (induction l)
  case Nil
  show ?case by simp
next
  case (Cons e l)
  obtain k0 v0 where e: "e = (k0, v0)" by (cases e)
  show ?case using Cons unfolding e by (cases "k0 = k") auto
qed

lemma keys_mapSet: "fst ` set (mapSet l k v) = insert k (fst ` set l)"
proof -
  have "set (map fst (mapSet l k v)) = insert k (set (map fst l))"
    unfolding map_fst_mapSet by auto
  then show ?thesis by simp
qed

lemma map_of_present: "map_of l k = Some v \<Longrightarrow> k \<in> fst ` set l"
  by (metis map_of_eq_None_iff option.distinct(1))

lemma map_of_mapSet: "map_of (mapSet l k v) = (map_of l)(k \<mapsto> v)"
  by (induction l) auto

lemma distinct_mapSet: "distinct (map fst l) \<Longrightarrow> distinct (map fst (mapSet l k v))"
  by (simp add: map_fst_mapSet)

text \<open>Replacing the value of a present key: the values as a multiset.\<close>

lemma mset_snd_mapSet_present:
  assumes "distinct (map fst l)" and "map_of l k = Some v"
  shows "mset (map snd (mapSet l k v')) + {#v#} = mset (map snd l) + {#v'#}"
  using assms
proof (induction l)
  case Nil
  then show ?case by simp
next
  case (Cons e l)
  obtain k0 v0 where e: "e = (k0, v0)" by (cases e)
  show ?case
  proof (cases "k0 = k")
    case True
    then show ?thesis using Cons.prems e by simp
  next
    case False
    then have "mset (map snd (mapSet l k v')) + {#v#} = mset (map snd l) + {#v'#}"
      using Cons e by simp
    then show ?thesis using False e by (simp add: add.commute add.left_commute) 
  qed
qed

lemma swap_fst: "map fst (swap l a b) = map fst l"
proof (cases "\<exists>x y ka kb. a = Some x \<and> b = Some y \<and> map_of l x = Some ka \<and> map_of l y = Some kb
                \<and> ka \<noteq> [] \<and> kb \<noteq> []")
  case False
  then have "swap l a b = l"
    by (auto simp add: swap_def split: option.splits)
  then show ?thesis by simp
next
  case True
  then obtain x y ka kb where a: "a = Some x" and b: "b = Some y"
    and x: "map_of l x = Some ka" and y: "map_of l y = Some kb" and ne: "ka \<noteq> []" "kb \<noteq> []"
    by blast
  have sw: "swap l a b = mapSet (mapSet l x kb) y ka"
    using a b x y ne by (simp add: swap_def)
  have xin: "x \<in> fst ` set l" using x by (rule map_of_present)
  have yin: "y \<in> fst ` set l" using y by (rule map_of_present)
  have 1: "map fst (mapSet l x kb) = map fst l" using xin by (simp add: map_fst_mapSet)
  have "y \<in> fst ` set (mapSet l x kb)" using yin by (simp add: keys_mapSet)
  then have "map fst (mapSet (mapSet l x kb) y ka) = map fst (mapSet l x kb)"
    by (simp add: map_fst_mapSet)
  then show ?thesis unfolding sw using 1 by simp
qed

lemma swap_mset:
  assumes "distinct (map fst l)"
  shows "mset (map snd (swap l a b)) = mset (map snd l)"
proof (cases "\<exists>x y ka kb. a = Some x \<and> b = Some y \<and> map_of l x = Some ka \<and> map_of l y = Some kb
                \<and> ka \<noteq> [] \<and> kb \<noteq> []")
  case False
  then have "swap l a b = l"
    by (auto simp add: swap_def split: option.splits)
  then show ?thesis by simp
next
  case True
  then obtain x y ka kb where a: "a = Some x" and b: "b = Some y"
    and x: "map_of l x = Some ka" and y: "map_of l y = Some kb" and ne: "ka \<noteq> []" "kb \<noteq> []"
    by blast
  have sw: "swap l a b = mapSet (mapSet l x kb) y ka"
    using a b x y ne by (simp add: swap_def)
  let ?l1 = "mapSet l x kb"
  have d1: "distinct (map fst ?l1)" using assms by (rule distinct_mapSet)
  have m1: "mset (map snd ?l1) + {#ka#} = mset (map snd l) + {#kb#}"
    by (rule mset_snd_mapSet_present [OF assms x])
  have y1: "map_of ?l1 y = Some (if y = x then kb else kb)"
    using y by (simp add: map_of_mapSet)
  then have y1': "map_of ?l1 y = Some kb" by simp
  have m2: "mset (map snd (mapSet ?l1 y ka)) + {#kb#} = mset (map snd ?l1) + {#ka#}"
    by (rule mset_snd_mapSet_present [OF d1 y1'])
  from m1 m2 have "mset (map snd (mapSet ?l1 y ka)) + {#kb#} = mset (map snd l) + {#kb#}"
    by simp
  then show ?thesis unfolding sw by simp
qed

section \<open>The annealing loop keeps the keys of the warm start\<close>

lemma conflictInner_swap:
  "conflictInner l k2f s an f others = Some r \<Longrightarrow> \<exists>a b. fst r = swap l a b"
proof (induction others)
  case Nil
  then show ?case by simp
next
  case (Cons otherName rest)
  show ?case
  proof (cases "conflictInner l k2f s an f rest = Some r")
    case True
    then show ?thesis by (rule Cons.IH)
  next
    case False
    then obtain p s' where "r = (swap l (Some otherName) p, s')"
      using Cons.prems
      by (auto simp add: Let_def split: option.splits if_splits prod.splits)
    then show ?thesis by auto
  qed
qed

lemma conflictOuter_swap:
  "conflictOuter l k2f s am es = Some r \<Longrightarrow> \<exists>a b. fst r = swap l a b"
proof (induction es)
  case Nil
  then show ?case by simp
next
  case (Cons e es)
  obtain an kc where e: "e = (an, kc)" by (cases e)
  show ?case
    using Cons.prems Cons.IH conflictInner_swap [of l k2f s an "k2f kc" _ r]
    unfolding e
    by (auto split: option.splits)
qed

lemma swap_None: "swap l None None = l"
  by (simp add: swap_def)

lemma conflictSwap_swap: "\<exists>a b. fst (conflictSwap l acts k2f s) = swap l a b"
proof (cases "conflictOuter l k2f s (actionMapOf acts) l")
  case None
  then have "fst (conflictSwap l acts k2f s) = swap l None None"
    by (simp add: conflictSwap_def swap_None)
  then show ?thesis by blast
next
  case (Some r)
  then have "fst (conflictSwap l acts k2f s) = fst r" by (simp add: conflictSwap_def)
  then show ?thesis using conflictOuter_swap [OF Some] by simp
qed

lemma mutate_swap: "\<exists>a b. fst (mutate l fl acts k2f s) = swap l a b"
proof -
  define P where "P r \<longleftrightarrow> (\<exists>a b. fst r = swap l a b)" for r :: "Layout \<times> real"
  have leaf1: "\<And>a b s'. P (swap l a b, s')" by (auto simp add: P_def)
  have leaf2: "\<And>s'. P (l, s')" using swap_None [of l] by (auto simp add: P_def) metis
  have leaf3: "\<And>s'. P (conflictSwap l acts k2f s')" using conflictSwap_swap by (simp add: P_def)
  have "P (mutate l fl acts k2f s)"
    unfolding mutate_def Let_def
    by (auto split: prod.splits intro: leaf1 leaf2 leaf3)
  then show ?thesis by (simp add: P_def)
qed

lemma sameKeys_swap:
  assumes "distinct (map fst init)" and "sameKeys init l"
  shows "sameKeys init (swap l a b)"
proof -
  have d: "distinct (map fst l)" using assms by (simp add: sameKeys_def)
  show ?thesis using assms(2) swap_fst [of l a b] swap_mset [OF d, of a b]
    by (simp add: sameKeys_def)
qed

lemma saStep_layouts:
  "(current (saStep acts ctx pen opts st) = current st
      \<or> (\<exists>a b. current (saStep acts ctx pen opts st) = swap (current st) a b))
   \<and> (best (saStep acts ctx pen opts st) = best st
      \<or> (\<exists>a b. best (saStep acts ctx pen opts st) = swap (current st) a b))
   \<and> temp (saStep acts ctx pen opts st) = temp st * coolingRate opts"
proof -
  obtain nb s1 where m: "mutate (current st) (calculateFingerLoads (current st) ctx) acts
                           (keyToFinger ctx) (rng st) = (nb, s1)"
    by (cases "mutate (current st) (calculateFingerLoads (current st) ctx) acts
                           (keyToFinger ctx) (rng st)")
  obtain a b where "nb = swap (current st) a b"
    using mutate_swap [of "current st" "calculateFingerLoads (current st) ctx" acts
        "keyToFinger ctx" "rng st"] m by auto
  then show ?thesis
    using m by (auto simp add: saStep_def Let_def)
qed

lemma saStep_sameKeys:
  assumes "distinct (map fst init)" "sameKeys init (current st)" "sameKeys init (best st)"
  shows "sameKeys init (current (saStep acts ctx pen opts st))
       \<and> sameKeys init (best (saStep acts ctx pen opts st))"
  using saStep_layouts [of acts ctx pen opts st] assms sameKeys_swap [OF assms(1,2)]
  by metis

lemma saLoop_sameKeys_aux:
  "saLoop acts ctx pen opts st = Some y \<Longrightarrow>
     distinct (map fst init) \<longrightarrow> sameKeys init (current st) \<longrightarrow> sameKeys init (best st)
       \<longrightarrow> sameKeys init y"
proof (induction rule: saLoop.raw_induct [rotated - 1, consumes 1, case_names step])
  case (step loop acts ctx pen opts st y)
  note IH = step(1) and eq = step(2)
  show ?case
  proof (cases "minTemp opts < temp st")
    case True
    then have "loop acts ctx pen opts (saStep acts ctx pen opts st) = Some y"
      using eq by simp
    then have step: "distinct (map fst init) \<longrightarrow>
              sameKeys init (current (saStep acts ctx pen opts st)) \<longrightarrow>
              sameKeys init (best (saStep acts ctx pen opts st)) \<longrightarrow> sameKeys init y"
      by (rule IH)
    show ?thesis
    proof (intro impI)
      assume d: "distinct (map fst init)"
        and c: "sameKeys init (current st)" and b: "sameKeys init (best st)"
      from saStep_sameKeys [OF d c b, of acts ctx pen opts] step d
      show "sameKeys init y" by blast
    qed
  next
    case False
    then show ?thesis using eq by simp
  qed
qed

lemma saLoop_sameKeys:
  assumes "saLoop acts ctx pen opts st = Some y"
    and "distinct (map fst init)" and "sameKeys init (current st)" and "sameKeys init (best st)"
  shows "sameKeys init y"
  using saLoop_sameKeys_aux [OF assms(1)] assms(2,3,4) by blast

lemma saLoop_terminates:
  "temp st * coolingRate opts ^ n \<le> minTemp opts \<Longrightarrow> \<exists>y. saLoop acts ctx pen opts st = Some y"
proof (induction n arbitrary: st)
  case 0
  then show ?case by (subst saLoop.simps) simp
next
  case (Suc n)
  show ?case
  proof (cases "minTemp opts < temp st")
    case False
    then show ?thesis by (subst saLoop.simps) simp
  next
    case True
    have "temp (saStep acts ctx pen opts st) * coolingRate opts ^ n \<le> minTemp opts"
      using Suc.prems saStep_layouts [of acts ctx pen opts st] by (simp add: mult.assoc)
    from Suc.IH [OF this] show ?thesis
      using True by (subst saLoop.simps) simp
  qed
qed

lemma cooling_reaches:
  assumes "0 < m" "0 \<le> r" "r < (1::real)"
  shows "\<exists>n. t * r ^ n \<le> m"
proof (cases "t \<le> 0")
  case True
  then have "t * r ^ 0 \<le> m" using assms(1) by simp
  then show ?thesis by blast
next
  case False
  then have tp: "0 < t" by simp
  then have "0 < m / t" using assms(1) by simp
  from real_arch_pow_inv [OF this assms(3)] obtain n where "r ^ n < m / t" by blast
  then have "t * r ^ n < m" using tp by (simp add: pos_less_divide_eq mult.commute)
  then show ?thesis by (intro exI [of _ n]) simp
qed

lemma optimizeSA_terminates:
  assumes "0 < minTemp opts" "0 \<le> coolingRate opts" "coolingRate opts < 1"
  shows "\<exists>L. optimizeSA now acts sks fc mc pen opts = Some L"
proof -
  obtain n where "initialTemp opts * coolingRate opts ^ n \<le> minTemp opts"
    using cooling_reaches [OF assms] by blast
  then show ?thesis
    unfolding optimizeSA_def Let_def
    by (intro saLoop_terminates [of _ _ n]) simp
qed

section \<open>The warm start\<close>

lemma mapSet_values:
  assumes "distinct (map snd l)" "v \<notin> snd ` set l"
  shows "distinct (map snd (mapSet l k v)) \<and> snd ` set (mapSet l k v) \<subseteq> insert v (snd ` set l)"
  using assms
proof (induction l)
  case Nil
  show ?case by simp
next
  case (Cons e l)
  obtain k0 v0 where e: "e = (k0, v0)" by (cases e)
  show ?case using Cons unfolding e by (cases "k0 = k") (auto simp add: image_iff)
qed

lemma initInv_set:
  assumes "initInv st" "k \<notin> usedKeys st"
  shows "distinct (map fst (mapSet (i_layout st) n k))
       \<and> distinct (map snd (mapSet (i_layout st) n k))
       \<and> snd ` set (mapSet (i_layout st) n k) \<subseteq> insert k (usedKeys st)"
proof -
  have v: "k \<notin> snd ` set (i_layout st)" using assms by (auto simp add: initInv_def)
  have d: "distinct (map snd (i_layout st))" using assms by (simp add: initInv_def)
  from mapSet_values [OF d v, of n] show ?thesis
    using assms(1) by (auto simp add: initInv_def distinct_mapSet)
qed

lemma initInv_assign: "initInv st \<Longrightarrow> k \<notin> usedKeys st \<Longrightarrow> initInv (assign st n k)"
  using initInv_set [of st k n] by (simp add: initInv_def assign_def)

lemma step1_inv:
  "initInv st \<Longrightarrow> distinct (map snd es) \<Longrightarrow> snd ` set es \<inter> usedKeys st = {}
     \<Longrightarrow> initInv (foldl (\<lambda>st (actionName, keyCode). assign st actionName keyCode) st es)"
proof (induction es arbitrary: st)
  case Nil
  then show ?case by simp
next
  case (Cons e es)
  obtain n k where e: "e = (n, k)" by (cases e)
  have k: "k \<notin> usedKeys st" using Cons.prems(3) e by auto
  have 1: "initInv (assign st n k)" using Cons.prems(1) k by (rule initInv_assign)
  have 2: "distinct (map snd es)" using Cons.prems(2) by simp
  have 3: "snd ` set es \<inter> usedKeys (assign st n k) = {}"
    using Cons.prems(2,3) e by (auto simp add: assign_def image_iff)
  show ?case using Cons.IH [OF 1 2 3] e by simp
qed

lemma exclusiveKeyLoop_inv: "initInv st \<Longrightarrow> initInv (exclusiveKeyLoop nm ks st)"
proof (induction ks arbitrary: st)
  case Nil
  then show ?case by simp
next
  case (Cons k ks)
  show ?case
    using Cons.prems Cons.IH initInv_assign [of st k]
    by (auto split: option.splits)
qed

lemma exclusiveFingerLoop_inv: "initInv st \<Longrightarrow> initInv (exclusiveFingerLoop nm fc st)"
proof (induction fc arbitrary: st)
  case Nil
  then show ?case by simp
next
  case (Cons e fc)
  obtain f c where e: "e = (f, c)" by (cases e)
  show ?case
    using Cons.prems Cons.IH exclusiveKeyLoop_inv [of st nm]
    unfolding e by (auto split: option.splits)
qed

lemma remainingLoop_inv: "initInv st \<Longrightarrow> initInv (remainingLoop sks rem st)"
proof (induction rem arbitrary: st)
  case Nil
  then show ?case by simp
next
  case (Cons a rem)
  show ?case
  proof (cases "find (\<lambda>sk. sk_code sk \<notin> usedKeys st) sks")
    case None
    then show ?thesis using Cons by simp
  next
    case (Some sk)
    then have "sk_code sk \<notin> usedKeys st" by (auto simp add: find_Some_iff)
    from initInv_set [OF Cons.prems this, of "name a"]
    have "initInv (st\<lparr>i_layout := mapSet (i_layout st) (name a) (sk_code sk),
                        usedKeys := insert (sk_code sk) (usedKeys st)\<rparr>)"
      by (simp add: initInv_def)
    then show ?thesis using Some Cons.IH by simp
  qed
qed

lemma generateInitialLayout_injective:
  assumes "distinct (map snd (buildMovementActionMap acts mc))"
  shows "distinct (map fst (generateInitialLayout acts sks mc fc))
       \<and> distinct (map snd (generateInitialLayout acts sks mc fc))"
proof -
  have 0: "initInv \<lparr>i_layout = [], usedKeys = {}, usedActions = {}\<rparr>"
    by (simp add: initInv_def)
  have 1: "initInv (foldl (\<lambda>st (actionName, keyCode). assign st actionName keyCode)
                     \<lparr>i_layout = [], usedKeys = {}, usedActions = {}\<rparr>
                     (buildMovementActionMap acts mc))"
    by (rule step1_inv [OF 0 assms]) simp
  show ?thesis
    unfolding generateInitialLayout_def Let_def
    using remainingLoop_inv [OF exclusiveFingerLoop_inv [OF 1]]
    by (simp add: initInv_def)
qed

lemma sameKeys_refl: "sameKeys l l"
  by (simp add: sameKeys_def)

lemma optimizeSA_sameKeys:
  assumes "optimizeSA now acts sks fc mc pen opts = Some L"
    and "distinct (map fst (generateInitialLayout acts sks mc fc))"
  shows "sameKeys (generateInitialLayout acts sks mc fc) L"
proof -
  let ?init = "generateInitialLayout acts sks mc fc"
  let ?ctx = "buildFrictionContext acts sks fc mc"
  let ?st = "\<lparr>current = ?init, currentScore = calculateFriction ?init ?ctx pen, best = ?init,
            bestScore = calculateFriction ?init ?ctx pen, temp = initialTemp opts,
            rng = (case seed opts of None \<Rightarrow> now | Some v \<Rightarrow> v)\<rparr>"
  have run: "saLoop acts ?ctx pen opts ?st = Some L"
    using assms(1) by (simp add: optimizeSA_def Let_def)
  show ?thesis
    by (rule saLoop_sameKeys [OF run assms(2)]) (simp_all add: sameKeys_refl)
qed


lemmas sa_eval =
  generateInitialLayout_def buildMovementActionMap_def directionKey_def toLowerCase_def
  assign_def Let_def

lemma init_twoForward:
  "generateInitialLayout twoForward axisTestKeys DEFAULT_MOVEMENT_CONFIG DEFAULT_FINGER_CONFIG
     = [(''Move Forward'', ''KeyW''), (''Sprint Forward'', ''KeyW'')]"
  by (simp add: sa_eval twoForward_def mkAction_def axisTestKeys_def mkScored_def
        DEFAULT_MOVEMENT_CONFIG_def DEFAULT_FINGER_CONFIG_def mkFinger_def)

lemma init_forwardAndJump:
  "generateInitialLayout forwardAndJump axisTestKeys DEFAULT_MOVEMENT_CONFIG DEFAULT_FINGER_CONFIG
     = [(''Move Forward'', ''KeyW''), (''Jump'', ''KeyF'')]"
  by (simp add: sa_eval forwardAndJump_def moveForward_def mkAction_def axisTestKeys_def mkScored_def
        DEFAULT_MOVEMENT_CONFIG_def DEFAULT_FINGER_CONFIG_def mkFinger_def)


text \<open>
  C4. A layout is documented as a permutation without duplicates, and steps 2 and 3 of the
  warm start look at \<open>usedKeys\<close> before they assign a key; step 1 does not. Two
  \<open>DIRECTIONAL\<close> actions whose names both contain "forward" are both put on the positive
  key of the vertical axis, swaps cannot separate them, and with the default options the
  optimizer returns a layout that uses \<open>KeyW\<close> twice.
\<close>

theorem annealed_layout_shares_key:
  "optimizeSA 0 twoForward axisTestKeys DEFAULT_FINGER_CONFIG DEFAULT_MOVEMENT_CONFIG
     DEFAULT_PENALTIES (DEFAULT_SA_OPTIONS\<lparr>seed := Some 42\<rparr>)
   = Some [(''Move Forward'', ''KeyW''), (''Sprint Forward'', ''KeyW'')]"
proof -
  let ?opts = "DEFAULT_SA_OPTIONS\<lparr>seed := Some 42\<rparr>"
  have c: "0 < minTemp ?opts" "0 \<le> coolingRate ?opts" "coolingRate ?opts < 1"
    by (simp_all add: DEFAULT_SA_OPTIONS_def)
  obtain L where L: "optimizeSA 0 twoForward axisTestKeys DEFAULT_FINGER_CONFIG
     DEFAULT_MOVEMENT_CONFIG DEFAULT_PENALTIES ?opts = Some L"
    using optimizeSA_terminates [OF c] by blast
  have "sameKeys [(''Move Forward'', ''KeyW''), (''Sprint Forward'', ''KeyW'')] L"
    using optimizeSA_sameKeys [OF L] unfolding init_twoForward by simp
  then have fs: "map fst L = [''Move Forward'', ''Sprint Forward'']"
    and sn: "mset (map snd L) = {#''KeyW'', ''KeyW''#}"
    by (simp_all add: sameKeys_def)
  from sn have "set (map snd L) = {''KeyW''}"
    by (metis insert_absorb2 mset.simps(1) mset.simps(2) set_mset_add_mset_insert set_mset_empty set_mset_mset list.simps(15) list.set(1) empty_set)
  then have "\<forall>e\<in>set L. snd e = ''KeyW''" by auto
  with fs have "L = [(''Move Forward'', ''KeyW''), (''Sprint Forward'', ''KeyW'')]"
    by (cases L; cases "tl L") (auto simp add: prod_eq_iff)
  with L show ?thesis by simp
qed

text \<open>
  What does hold: when \<open>buildMovementActionMap\<close> sends the \<open>DIRECTIONAL\<close> actions to
  pairwise different keys, every layout \<open>optimizeSA\<close> returns is injective: no action and
  no key occurs twice, and the number of actions equals the number of keys used.
\<close>

lemma optimizeSA_injective:
  assumes "optimizeSA now actions scoredKeys fingerConfig movementConfig penalties options = Some L"
    and "distinct (map snd (buildMovementActionMap actions movementConfig))"
  shows "distinct (map fst L) \<and> distinct (map snd L) \<and> length L = card (snd ` set L)"
proof -
  let ?init = "generateInitialLayout actions scoredKeys movementConfig fingerConfig"
  have i: "distinct (map fst ?init) \<and> distinct (map snd ?init)"
    using assms(2) by (rule generateInitialLayout_injective)
  then have sk: "sameKeys ?init L" using optimizeSA_sameKeys [OF assms(1)] by simp
  have f: "distinct (map fst L)" using sk i by (simp add: sameKeys_def)
  have "mset (map snd L) = mset (map snd ?init)" using sk by (simp add: sameKeys_def)
  then have s: "distinct (map snd L)" using i by (metis mset_eq_imp_distinct_iff)
  have "card (set (map snd L)) = length (map snd L)" using s by (rule distinct_card)
  then show ?thesis using f s by simp
qed


lemma optimizeSA_injective_example:
  "\<exists>L. optimizeSA 0 forwardAndJump axisTestKeys DEFAULT_FINGER_CONFIG DEFAULT_MOVEMENT_CONFIG
          DEFAULT_PENALTIES (DEFAULT_SA_OPTIONS\<lparr>seed := Some 42\<rparr>) = Some L
       \<and> distinct (map fst L) \<and> distinct (map snd L) \<and> length L = card (snd ` set L)"
proof -
  let ?opts = "DEFAULT_SA_OPTIONS\<lparr>seed := Some 42\<rparr>"
  have c: "0 < minTemp ?opts" "0 \<le> coolingRate ?opts" "coolingRate ?opts < 1"
    by (simp_all add: DEFAULT_SA_OPTIONS_def)
  obtain L where L: "optimizeSA 0 forwardAndJump axisTestKeys DEFAULT_FINGER_CONFIG
     DEFAULT_MOVEMENT_CONFIG DEFAULT_PENALTIES ?opts = Some L"
    using optimizeSA_terminates [OF c] by blast
  have h: "distinct (map snd (buildMovementActionMap forwardAndJump DEFAULT_MOVEMENT_CONFIG))"
    by (simp add: sa_eval forwardAndJump_def moveForward_def mkAction_def
          DEFAULT_MOVEMENT_CONFIG_def)
  from optimizeSA_injective [OF L h] L show ?thesis by blast
qed

section \<open>Determinism\<close>

lemma optimizeSA_start:
  "optimizeSA now acts sks fc mc pen opts =
     saLoop acts (buildFrictionContext acts sks fc mc) pen opts
       (saStart acts sks fc mc pen opts (case seed opts of None \<Rightarrow> now | Some v \<Rightarrow> v))"
  by (simp add: optimizeSA_def saStart_def Let_def)

lemma rounds_temp:
  "temp ((saStep acts ctx pen opts ^^ i) st) = temp st * coolingRate opts ^ i"
proof (induction i)
  case 0
  show ?case by simp
next
  case (Suc i)
  have "temp ((saStep acts ctx pen opts ^^ Suc i) st)
          = temp ((saStep acts ctx pen opts ^^ i) st) * coolingRate opts"
    using saStep_layouts [of acts ctx pen opts "(saStep acts ctx pen opts ^^ i) st"] by simp
  then show ?case using Suc by (simp add: mult.assoc)
qed

text \<open>
  The loop returns after exactly \<open>n\<close> rounds when the temperature is above \<open>minTemp\<close>
  before each of them and not after the last; what it returns is the best layout of the
  state these rounds lead to.
\<close>

lemma saLoop_rounds:
  assumes "\<forall>i<n. minTemp opts < temp ((saStep acts ctx pen opts ^^ i) st)"
    and "temp ((saStep acts ctx pen opts ^^ n) st) \<le> minTemp opts"
  shows "saLoop acts ctx pen opts st = Some (best ((saStep acts ctx pen opts ^^ n) st))"
  using assms
proof (induction n arbitrary: st)
  case 0
  then show ?case by (subst saLoop.simps) simp
next
  case (Suc n)
  let ?f = "saStep acts ctx pen opts"
  have hot: "minTemp opts < temp st" using Suc.prems(1) by force
  have sh: "\<And>i. (?f ^^ i) (?f st) = (?f ^^ Suc i) st" by (simp add: funpow_swap1)
  have 1: "\<forall>i<n. minTemp opts < temp ((?f ^^ i) (?f st))"
    unfolding sh using Suc.prems(1) by auto
  have 2: "temp ((?f ^^ n) (?f st)) \<le> minTemp opts"
    unfolding sh using Suc.prems(2) by simp
  have "saLoop acts ctx pen opts (?f st) = Some (best ((?f ^^ n) (?f st)))"
    by (rule Suc.IH [OF 1 2])
  then show ?case using hot unfolding sh by (subst saLoop.simps) simp
qed

lemma rounds_exist:
  assumes "0 < minTemp opts" "0 \<le> coolingRate opts" "coolingRate opts < 1"
  shows "\<exists>n. (\<forall>i<n. minTemp opts < temp ((saStep acts ctx pen opts ^^ i) st))
           \<and> temp ((saStep acts ctx pen opts ^^ n) st) \<le> minTemp opts"
proof -
  let ?P = "\<lambda>n. temp ((saStep acts ctx pen opts ^^ n) st) \<le> minTemp opts"
  have ex: "\<exists>n. ?P n"
    using cooling_reaches [OF assms, of "temp st"] by (simp add: rounds_temp)
  have a: "?P (LEAST n. ?P n)" using ex by (rule LeastI_ex)
  have b: "\<forall>i<(LEAST n. ?P n). \<not> ?P i" using not_less_Least by blast
  show ?thesis
    using a b by (intro exI [of _ "LEAST n. ?P n"]) (auto simp add: not_le)
qed

text \<open>
  C6. The clock is the one thing \<open>optimizeSA\<close> reads from outside its arguments, and with
  a seed in the options it is not read: two runs with the same seed, actions, keys,
  configuration, penalties and options give the same result whatever the time at which each
  starts. When the cooling schedule ends (\<open>minTemp\<close> positive, \<open>coolingRate\<close> from 0 up to
  but not 1) both runs do return a layout, after the same number \<open>n\<close> of rounds, and it is
  the best layout of the state that \<open>n\<close> rounds of \<open>saStep\<close> lead to from the start state
  whose generator holds the seed: the trajectory of the two runs is the same, round by round.
\<close>

theorem seeded_run_reproducible:
  assumes "seed options = Some s"
  shows "optimizeSA now actions scoredKeys fingerConfig movementConfig penalties options
           = optimizeSA now' actions scoredKeys fingerConfig movementConfig penalties options
       \<and> (0 < minTemp options \<longrightarrow> 0 \<le> coolingRate options \<longrightarrow> coolingRate options < 1 \<longrightarrow>
            (\<exists>n. (\<forall>i<n. minTemp options
                          < temp (saRounds actions scoredKeys fingerConfig movementConfig
                                    penalties options s i))
                \<and> temp (saRounds actions scoredKeys fingerConfig movementConfig penalties
                          options s n) \<le> minTemp options
                \<and> optimizeSA now actions scoredKeys fingerConfig movementConfig penalties options
                    = Some (best (saRounds actions scoredKeys fingerConfig movementConfig
                                    penalties options s n))
                \<and> optimizeSA now' actions scoredKeys fingerConfig movementConfig penalties options
                    = Some (best (saRounds actions scoredKeys fingerConfig movementConfig
                                    penalties options s n))))"
proof (intro conjI impI)
  show "optimizeSA now actions scoredKeys fingerConfig movementConfig penalties options
           = optimizeSA now' actions scoredKeys fingerConfig movementConfig penalties options"
    using assms by (simp add: optimizeSA_start)
next
  assume c: "0 < minTemp options" "0 \<le> coolingRate options" "coolingRate options < 1"
  let ?ctx = "buildFrictionContext actions scoredKeys fingerConfig movementConfig"
  let ?st = "saStart actions scoredKeys fingerConfig movementConfig penalties options s"
  obtain n where n: "\<forall>i<n. minTemp options < temp ((saStep actions ?ctx penalties options ^^ i) ?st)"
      "temp ((saStep actions ?ctx penalties options ^^ n) ?st) \<le> minTemp options"
    using rounds_exist [OF c, of actions ?ctx penalties ?st] by blast
  have run: "saLoop actions ?ctx penalties options ?st
               = Some (best ((saStep actions ?ctx penalties options ^^ n) ?st))"
    by (rule saLoop_rounds [OF n])
  have "\<And>t. optimizeSA t actions scoredKeys fingerConfig movementConfig penalties options
               = Some (best ((saStep actions ?ctx penalties options ^^ n) ?st))"
    using assms run by (simp add: optimizeSA_start)
  then show "\<exists>n. (\<forall>i<n. minTemp options
                          < temp (saRounds actions scoredKeys fingerConfig movementConfig
                                    penalties options s i))
                \<and> temp (saRounds actions scoredKeys fingerConfig movementConfig penalties
                          options s n) \<le> minTemp options
                \<and> optimizeSA now actions scoredKeys fingerConfig movementConfig penalties options
                    = Some (best (saRounds actions scoredKeys fingerConfig movementConfig
                                    penalties options s n))
                \<and> optimizeSA now' actions scoredKeys fingerConfig movementConfig penalties options
                    = Some (best (saRounds actions scoredKeys fingerConfig movementConfig
                                    penalties options s n))"
    using n unfolding saRounds_def by (intro exI [of _ n]) simp
qed

theorem seeded_run_reproducible_witness:
  "\<exists>n. optimizeSA 1700000000000 forwardAndJump axisTestKeys DEFAULT_FINGER_CONFIG
          DEFAULT_MOVEMENT_CONFIG DEFAULT_PENALTIES (DEFAULT_SA_OPTIONS\<lparr>seed := Some 42\<rparr>)
        = Some (best (saRounds forwardAndJump axisTestKeys DEFAULT_FINGER_CONFIG
                        DEFAULT_MOVEMENT_CONFIG DEFAULT_PENALTIES
                        (DEFAULT_SA_OPTIONS\<lparr>seed := Some 42\<rparr>) 42 n))
      \<and> optimizeSA 1700000000001 forwardAndJump axisTestKeys DEFAULT_FINGER_CONFIG
          DEFAULT_MOVEMENT_CONFIG DEFAULT_PENALTIES (DEFAULT_SA_OPTIONS\<lparr>seed := Some 42\<rparr>)
        = Some (best (saRounds forwardAndJump axisTestKeys DEFAULT_FINGER_CONFIG
                        DEFAULT_MOVEMENT_CONFIG DEFAULT_PENALTIES
                        (DEFAULT_SA_OPTIONS\<lparr>seed := Some 42\<rparr>) 42 n))"
proof -
  let ?opts = "DEFAULT_SA_OPTIONS\<lparr>seed := Some 42\<rparr>"
  have h: "seed ?opts = Some 42" by simp
  have c: "0 < minTemp ?opts" "0 \<le> coolingRate ?opts" "coolingRate ?opts < 1"
    by (simp_all add: DEFAULT_SA_OPTIONS_def)
  from seeded_run_reproducible [OF h, of 1700000000000 forwardAndJump axisTestKeys
         DEFAULT_FINGER_CONFIG DEFAULT_MOVEMENT_CONFIG DEFAULT_PENALTIES 1700000000001] c
  show ?thesis by blast
qed

text \<open>
  Without a seed the generator starts from the clock, and the generator does depend on
  where it starts: from 1 and from 2 its first states differ.
\<close>

lemma unseeded_run_reads_clock:
  "seed options = None \<Longrightarrow>
     optimizeSA now actions scoredKeys fingerConfig movementConfig penalties options
       = saLoop actions (buildFrictionContext actions scoredKeys fingerConfig movementConfig)
           penalties options
           (saStart actions scoredKeys fingerConfig movementConfig penalties options now)"
  by (simp add: optimizeSA_start)

lemma next_depends_on_seed:
  "snd (SeededRandom_next 1) = 1103527590 \<and> snd (SeededRandom_next 2) = 59559187"
proof -
  have a: "round53 (1 * 1103515245) = 1103515245"
    using round53_exact [of 1103515245 0] by simp
  have b: "round53 (1103515245 + 12345) = 1103527590"
    using round53_exact [of 1103527590 0] by simp
  have c: "round53 (2 * 1103515245) = 2207030490"
    using round53_exact [of 2207030490 0] by simp
  have d: "round53 (2207030490 + 12345) = 2207042835"
    using round53_exact [of 2207042835 0] by simp
  have t1: "truncToInt 1103527590 = 1103527590" by (simp add: truncToInt_def)
  have t2: "truncToInt 2207042835 = 2207042835" by (simp add: truncToInt_def)
  have w1: "uint (and (word_of_int 1103527590 :: 32 word) 0x7fffffff) = 1103527590" by simp
  have w2: "uint (and (word_of_int 2207042835 :: 32 word) 0x7fffffff) = 59559187" by simp
  show ?thesis
    unfolding SeededRandom_next_def Let_def a b c d toInt32_def t1 t2 w1 w2 by simp
qed

section \<open>The cost function\<close>

lemma actionMapOf_foldl_mem:
  "foldl (\<lambda>m a. m(name a \<mapsto> a)) m0 acts n = Some a \<Longrightarrow> a \<in> set acts \<or> m0 n = Some a"
proof (induction acts arbitrary: m0)
  case Nil
  then show ?case by simp
next
  case (Cons x acts)
  from Cons.prems have "foldl (\<lambda>m a. m(name a \<mapsto> a)) (m0(name x \<mapsto> x)) acts n = Some a"
    by (simp only: foldl_Cons)
  from Cons.IH [OF this] have "a \<in> set acts \<or> (m0(name x \<mapsto> x)) n = Some a" .
  then show ?case by (auto split: if_splits)
qed

lemma actionMapOf_mem: "actionMapOf acts n = Some a \<Longrightarrow> a \<in> set acts"
  using actionMapOf_foldl_mem [of Map.empty acts n a] by (simp add: actionMapOf_def)

lemma sum_list_floor:
  fixes f :: "'a \<Rightarrow> real"
  assumes "\<forall>e\<in>set xs. 0 \<le> f e" and "e0 \<in> set xs" and "c \<le> f e0"
  shows "c \<le> sum_list (map f xs)"
  using assms
proof (induction xs)
  case Nil
  then show ?case by simp
next
  case (Cons x xs)
  show ?case
  proof (cases "e0 = x")
    case True
    have "0 \<le> sum_list (map f xs)" using Cons.prems(1) by (auto intro!: sum_list_nonneg)
    then show ?thesis using True Cons.prems(3) by simp
  next
    case False
    then have "c \<le> sum_list (map f xs)" using Cons by simp
    moreover have "0 \<le> f x" using Cons.prems(1) by simp
    ultimately show ?thesis by simp
  qed
qed

lemma loadImbalance_nonneg: "0 \<le> calculateLoadImbalance layout ctx actionMap"
proof (cases "length (loadLoop ctx actionMap layout []) < 2")
  case True
  then show ?thesis by (simp add: calculateLoadImbalance_def)
next
  case False
  let ?s = "set (map snd (loadLoop ctx actionMap layout []))"
  from False have "loadLoop ctx actionMap layout [] \<noteq> []" by auto
  then obtain v where v: "v \<in> ?s" by (cases "loadLoop ctx actionMap layout []") auto
  have "Min ?s \<le> v" using v by (intro Min_le) simp_all
  moreover have "v \<le> Max ?s" using v by (intro Max_ge) simp_all
  ultimately have "Min ?s \<le> Max ?s" by linarith
  then show ?thesis using False by (simp add: calculateLoadImbalance_def Let_def)
qed

text \<open>
  The cost of an entry is at least its penalty for a misplaced movement action, when the
  weights, the frequency and the distance are not negative.
\<close>

lemma entryFriction_parts:
  assumes w: "0 \<le> distanceWeight pen" "0 \<le> frequencyWeight pen" "0 \<le> concurrencyPenalty pen"
      "0 \<le> exclusiveViolation pen" "0 \<le> unreachablePenalty pen"
    and fr: "0 \<le> useFrequency a"
    and ds: "\<forall>d. keyToDistance ctx k = Some d \<longrightarrow> 0 \<le> d"
    and am: "am n = Some a"
  shows "(if atype a = DIRECTIONAL
             \<and> (case movementActionToKey ctx n of
                   None \<Rightarrow> False
                 | Some correctKey \<Rightarrow> correctKey \<noteq> [] \<and> k \<noteq> correctKey)
          then 1000000 else 0) \<le> entryFriction l ctx pen ef am (n, k)"
proof -
  define distance where "distance = (case keyToDistance ctx k of None \<Rightarrow> 100 | Some d \<Rightarrow> d)"
  define t1 :: real where "t1 = (if atype a = DIRECTIONAL
             \<and> (case movementActionToKey ctx n of
                   None \<Rightarrow> False
                 | Some correctKey \<Rightarrow> correctKey \<noteq> [] \<and> k \<noteq> correctKey)
          then 1000000 else 0)"
  define t2 :: real where
    "t2 = (if atype a \<noteq> DIRECTIONAL \<and> k \<in> movementKeySet ctx then 500000 else 0)"
  define t3 :: real where "t3 = (case keyToFinger ctx k of
                None \<Rightarrow> 0
              | Some f \<Rightarrow>
                  (case map_of (fingerExclusiveKeys ctx) f of
                     None \<Rightarrow> 0
                   | Some fingerExclusive \<Rightarrow> if k \<notin> fingerExclusive then 200000 else 0)
                  + sum_list (map (\<lambda>(otherFinger, exclusiveSet).
                                     if otherFinger \<noteq> f \<and> k \<in> exclusiveSet
                                     then 200000 else 0)
                               (fingerExclusiveKeys ctx)))"
  define t4 where "t4 = distance * useFrequency a * frequencyWeight pen"
  define t4' where "t4' = distance * distanceWeight pen"
  define t5 where "t5 = (case keyToFinger ctx k of
                None \<Rightarrow> 0
              | Some f \<Rightarrow>
                  if f \<in> ef \<and> atype a \<noteq> DIRECTIONAL
                  then exclusiveViolation pen else 0)"
  define t6 where "t6 = (case keyToFinger ctx k of
                None \<Rightarrow> 0
              | Some f \<Rightarrow>
                  (case map_of (ctx_fingerConfig ctx) f of
                     None \<Rightarrow> 0
                   | Some config \<Rightarrow>
                       if distance > reach config then unreachablePenalty pen else 0))"
  define t7 where "t7 = (case concurrentWith a of
                None \<Rightarrow> 0
              | Some others \<Rightarrow>
                  sum_list (map (\<lambda>otherName.
                      case map_of l otherName of
                        None \<Rightarrow> 0
                      | Some otherKey \<Rightarrow>
                          if otherKey = [] then 0
                          else (case (keyToFinger ctx k, keyToFinger ctx otherKey) of
                                  (Some f, Some otherFinger) \<Rightarrow>
                                    if f = otherFinger then concurrencyPenalty pen else 0
                                | _ \<Rightarrow> 0))
                    others))"
  have eq: "entryFriction l ctx pen ef am (n, k) = t1 + t2 + t3 + t4 + t4' + t5 + t6 + t7"
    unfolding entryFriction_def prod.case am option.case Let_def
      t1_def t2_def t3_def t4_def t4'_def t5_def t6_def t7_def distance_def
    by (rule refl)
  have d0: "0 \<le> distance" using ds by (auto simp add: distance_def split: option.splits)
  have n2: "0 \<le> t2" by (simp add: t2_def)
  have n3: "0 \<le> t3"
    unfolding t3_def
    by (auto split: option.splits intro!: add_nonneg_nonneg sum_list_nonneg)
  have n4: "0 \<le> t4" using d0 fr w(2) by (simp add: t4_def)
  have n4': "0 \<le> t4'" using d0 w(1) by (simp add: t4'_def)
  have n5: "0 \<le> t5" using w(4) by (auto simp add: t5_def split: option.splits)
  have n6: "0 \<le> t6" using w(5) by (auto simp add: t6_def split: option.splits)
  have n7: "0 \<le> t7"
    unfolding t7_def using w(3)
    by (auto split: option.splits intro!: sum_list_nonneg)
  have "t1 \<le> t1 + t2 + t3 + t4 + t4' + t5 + t6 + t7"
    using n2 n3 n4 n4' n5 n6 n7 by linarith
  then show ?thesis unfolding eq t1_def .
qed

lemma entryFriction_nonneg:
  assumes w: "0 \<le> distanceWeight pen" "0 \<le> frequencyWeight pen" "0 \<le> concurrencyPenalty pen"
      "0 \<le> exclusiveViolation pen" "0 \<le> unreachablePenalty pen"
    and fr: "\<forall>n a. am n = Some a \<longrightarrow> 0 \<le> useFrequency a"
    and ds: "\<forall>k d. keyToDistance ctx k = Some d \<longrightarrow> 0 \<le> d"
  shows "0 \<le> entryFriction l ctx pen ef am e"
proof -
  obtain n k where e: "e = (n, k)" by (cases e)
  show ?thesis
  proof (cases "am n")
    case None
    then show ?thesis unfolding e by (simp add: entryFriction_def)
  next
    case (Some a)
    have f: "0 \<le> useFrequency a" using fr Some by blast
    have d: "\<forall>d. keyToDistance ctx k = Some d \<longrightarrow> 0 \<le> d" using ds by simp
    have "(0::real) \<le> (if atype a = DIRECTIONAL
             \<and> (case movementActionToKey ctx n of
                   None \<Rightarrow> False
                 | Some correctKey \<Rightarrow> correctKey \<noteq> [] \<and> k \<noteq> correctKey)
          then 1000000 else 0)" by simp
    also have "\<dots> \<le> entryFriction l ctx pen ef am (n, k)"
      by (rule entryFriction_parts [where am = am and n = n and a = a and k = k and ctx = ctx
            and pen = pen, OF w f d Some])
    finally show ?thesis using e by simp
  qed
qed


lemmas friction_eval =
  calculateFriction_def entryFriction_def calculateLoadImbalance_def clusterContext_def
  buildFrictionContext_def buildExclusiveFingerSet_def actionMapOf_def directionKey_def
  toLowerCase_def hasExclusiveKeys_def clusterKeys_def clusterActions_def
  forwardMisplaced_def forwardInPlace_def forwardAtHome_def moveForward_def mkAction_def
  mkScored_def mkFinger_def DEFAULT_FINGER_CONFIG_def DEFAULT_MOVEMENT_CONFIG_def
  DEFAULT_PENALTIES_def Let_def

text \<open>
  C5, as stated, fails, already with the default penalties. The first layout puts
  \<open>Move Forward\<close> on \<open>KeyF\<close> instead of \<open>KeyW\<close> and costs 1000005. The second puts every
  movement action on its key, but \<open>Jump\<close> and \<open>Shoot\<close> on the movement keys \<open>KeyS\<close> and
  \<open>KeyA\<close>: two penalties of 500000, two of 100000 for the exclusive movement fingers, the
  distances and the load imbalance make 1200102.
\<close>

theorem friction_dominance_counterexample:
  "movementActionToKey clusterContext ''Move Forward'' = Some ''KeyW''
   \<and> map_of forwardMisplaced ''Move Forward'' = Some ''KeyF''
   \<and> map_of forwardInPlace ''Move Forward'' = Some ''KeyW''
   \<and> calculateFriction forwardMisplaced clusterContext DEFAULT_PENALTIES = 1000005
   \<and> calculateFriction forwardInPlace clusterContext DEFAULT_PENALTIES = 1200102
   \<and> \<not> calculateFriction forwardMisplaced clusterContext DEFAULT_PENALTIES
         > calculateFriction forwardInPlace clusterContext DEFAULT_PENALTIES"
proof -
  have a: "calculateFriction forwardMisplaced clusterContext DEFAULT_PENALTIES = 1000005"
    by (simp add: friction_eval)
  have b: "calculateFriction forwardInPlace clusterContext DEFAULT_PENALTIES = 1200102"
    by (simp add: friction_eval)
  have c: "movementActionToKey clusterContext ''Move Forward'' = Some ''KeyW''"
    by (simp add: friction_eval)
  show ?thesis unfolding a b c by (simp add: forwardMisplaced_def forwardInPlace_def)
qed

text \<open>
  C5, amended. When the penalty weights, the frequencies of the actions and the distances
  of the keys are not negative, a layout that has a \<open>DIRECTIONAL\<close> action of the context
  on a key other than its correct key costs at least 1000000, and so more than every layout
  whose cost is below 1000000.
\<close>

theorem directional_violation_floor:
  assumes w: "0 \<le> distanceWeight penalties" "0 \<le> frequencyWeight penalties"
      "0 \<le> concurrencyPenalty penalties" "0 \<le> exclusiveViolation penalties"
      "0 \<le> unreachablePenalty penalties"
    and fr: "\<forall>a\<in>set (ctx_actions ctx). 0 \<le> useFrequency a"
    and ds: "\<forall>k d. keyToDistance ctx k = Some d \<longrightarrow> 0 \<le> d"
    and entry: "(actionName, keyCode) \<in> set L1"
    and act: "actionMapOf (ctx_actions ctx) actionName = Some action"
    and dir: "atype action = DIRECTIONAL"
    and ck: "movementActionToKey ctx actionName = Some correctKey"
    and wrong: "correctKey \<noteq> []" "keyCode \<noteq> correctKey"
  shows "1000000 \<le> calculateFriction L1 ctx penalties
       \<and> (calculateFriction L2 ctx penalties < 1000000
            \<longrightarrow> calculateFriction L2 ctx penalties < calculateFriction L1 ctx penalties)"
proof -
  let ?am = "actionMapOf (ctx_actions ctx)"
  let ?ef = "buildExclusiveFingerSet (ctx_movementConfig ctx)"
  have fr': "\<forall>n a. ?am n = Some a \<longrightarrow> 0 \<le> useFrequency a"
    using fr actionMapOf_mem by blast
  have nn: "\<forall>e\<in>set L1. 0 \<le> entryFriction L1 ctx penalties ?ef ?am e"
  proof
    fix e assume "e \<in> set L1"
    show "0 \<le> entryFriction L1 ctx penalties ?ef ?am e"
      by (rule entryFriction_nonneg [OF w fr' ds])
  qed
  have fa: "0 \<le> useFrequency action" using fr actionMapOf_mem [OF act] by blast
  have dk: "\<forall>d. keyToDistance ctx keyCode = Some d \<longrightarrow> 0 \<le> d" using ds by simp
  have "1000000 \<le> entryFriction L1 ctx penalties ?ef ?am (actionName, keyCode)"
    using entryFriction_parts [where am = ?am and n = actionName and a = action
            and k = keyCode and ctx = ctx and pen = penalties and l = L1 and ef = ?ef,
            OF w fa dk act] dir ck wrong
    by simp
  from sum_list_floor [OF nn entry this]
  have "1000000 \<le> sum_list (map (entryFriction L1 ctx penalties ?ef ?am) L1)" .
  then have "1000000 \<le> calculateFriction L1 ctx penalties"
    using loadImbalance_nonneg [of L1 ctx ?am] by (simp add: calculateFriction_def Let_def)
  then show ?thesis by simp
qed

theorem directional_violation_floor_witness:
  "calculateFriction forwardAtHome clusterContext DEFAULT_PENALTIES = 5
   \<and> calculateFriction forwardAtHome clusterContext DEFAULT_PENALTIES
       < calculateFriction forwardMisplaced clusterContext DEFAULT_PENALTIES"
proof -
  have w: "0 \<le> distanceWeight DEFAULT_PENALTIES" "0 \<le> frequencyWeight DEFAULT_PENALTIES"
      "0 \<le> concurrencyPenalty DEFAULT_PENALTIES" "0 \<le> exclusiveViolation DEFAULT_PENALTIES"
      "0 \<le> unreachablePenalty DEFAULT_PENALTIES"
    by (simp_all add: DEFAULT_PENALTIES_def)
  have fr: "\<forall>a\<in>set (ctx_actions clusterContext). 0 \<le> useFrequency a"
    by (simp add: friction_eval)
  have ds: "\<forall>k d. keyToDistance clusterContext k = Some d \<longrightarrow> 0 \<le> d"
    by (auto simp add: friction_eval split: if_splits)
  have entry: "(''Move Forward'', ''KeyF'') \<in> set forwardMisplaced"
    by (simp add: forwardMisplaced_def)
  have act: "actionMapOf (ctx_actions clusterContext) ''Move Forward'' = Some moveForward"
    by (simp add: friction_eval)
  have dir: "atype moveForward = DIRECTIONAL"
    by (simp add: moveForward_def mkAction_def)
  have ck: "movementActionToKey clusterContext ''Move Forward'' = Some ''KeyW''"
    by (simp add: friction_eval)
  have wrong: "''KeyW'' \<noteq> []" "''KeyF'' \<noteq> ''KeyW''" by simp_all
  have home: "calculateFriction forwardAtHome clusterContext DEFAULT_PENALTIES = 5"
    by (simp add: friction_eval)
  from directional_violation_floor [where ?L1.0 = forwardMisplaced and ?L2.0 = forwardAtHome,
         OF w fr ds entry act dir ck wrong]
  show ?thesis unfolding home by simp
qed

end
